theory Spec2Isabelle
  imports Complex_Main
begin

section \<open>Python strings\<close>

text \<open>
  A Python \<open>str\<close> is a sequence of code points. It is modelled as a \<^typ>\<open>string\<close>, whose
  characters stand for the code points 0 to 255 (ASCII and Latin-1); \<open>code c\<close> is the
  code point of \<open>c\<close>.
\<close>

definition code :: "char \<Rightarrow> nat" where
  "code c = of_char c"

text \<open>\<open>str.isspace\<close> on one code point below 256.\<close>

definition is_space :: "char \<Rightarrow> bool" where
  "is_space c = ((9 \<le> code c \<and> code c \<le> 13) \<or> (28 \<le> code c \<and> code c \<le> 32)
     \<or> code c = 133 \<or> code c = 160)"

text \<open>\<open>s.strip()\<close>: whitespace removed at both ends.\<close>

definition py_strip :: "string \<Rightarrow> string" where
  "py_strip s = rev (dropWhile is_space (rev (dropWhile is_space s)))"

text \<open>\<open>s.lower()\<close>: the upper-case letters of ASCII and Latin-1 move 32 code points up.\<close>

definition lower_char :: "char \<Rightarrow> char" where
  "lower_char c =
     (if (65 \<le> code c \<and> code c \<le> 90) \<or> (192 \<le> code c \<and> code c \<le> 222 \<and> code c \<noteq> 215)
      then char_of (code c + 32) else c)"

definition py_lower :: "string \<Rightarrow> string" where
  "py_lower s = map lower_char s"

text \<open>\<open>s.startswith(p)\<close>, returning what follows the prefix.\<close>

fun strip_prefix :: "string \<Rightarrow> string \<Rightarrow> string option" where
  "strip_prefix [] s = Some s"
| "strip_prefix (p # ps) [] = None"
| "strip_prefix (p # ps) (c # cs) = (if p = c then strip_prefix ps cs else None)"

definition startswith :: "string \<Rightarrow> string \<Rightarrow> bool" where
  "startswith s p = (strip_prefix p s \<noteq> None)"

lemma strip_prefix_length:
  "strip_prefix p s = Some r \<Longrightarrow> length s = length p + length r"
  by (induction p s rule: strip_prefix.induct) (auto split: if_splits)

text \<open>
  \<open>s.replace(old, new)\<close>: every occurrence of \<open>old\<close>, found from the left and not
  overlapping, becomes \<open>new\<close>. With an empty \<open>old\<close>, Python puts \<open>new\<close> around every
  character.
\<close>

function py_replace :: "string \<Rightarrow> string \<Rightarrow> string \<Rightarrow> string" where
  "py_replace old new s =
     (if old = [] then new @ concat (map (\<lambda>c. c # new) s)
      else (case s of
              [] \<Rightarrow> []
            | c # cs \<Rightarrow>
                (case strip_prefix old s of
                   Some r \<Rightarrow> new @ py_replace old new r
                 | None \<Rightarrow> c # py_replace old new cs)))"
  by pat_completeness auto
termination
proof (relation "measure (\<lambda>(old, new, s). length s)")
  show "wf (measure (\<lambda>(old, new, s). length s))"
    by simp
next
  fix old new :: string and s r :: string and c cs
  assume "old \<noteq> []" and "s = c # cs" and "strip_prefix old s = Some r"
  then have "length r < length s"
    using strip_prefix_length [of old s r] by (cases old) auto
  then show "((old, new, r), (old, new, s)) \<in> measure (\<lambda>(old, new, s). length s)"
    by simp
next
  fix old new :: string and s :: string and c cs
  assume "s = c # cs"
  then show "((old, new, cs), (old, new, s)) \<in> measure (\<lambda>(old, new, s). length s)"
    by simp
qed

text \<open>\<open>needle in s\<close> for strings.\<close>

fun contains :: "string \<Rightarrow> string \<Rightarrow> bool" where
  "contains [] needle = (needle = [])"
| "contains (c # cs) needle = (startswith (c # cs) needle \<or> contains cs needle)"

text \<open>
  \<open>re.match(r"^[A-Za-z_][A-Za-z0-9_]*$", s)\<close>. The star takes the longest run of word
  characters (none of them is a newline, so no shorter run can be followed by the end), and
  Python's \<open>$\<close> matches at the end of the string and also just before a newline that ends it.
\<close>

definition is_ident_start :: "char \<Rightarrow> bool" where
  "is_ident_start c =
     ((65 \<le> code c \<and> code c \<le> 90) \<or> (97 \<le> code c \<and> code c \<le> 122) \<or> code c = 95)"

definition is_ident_char :: "char \<Rightarrow> bool" where
  "is_ident_char c = (is_ident_start c \<or> (48 \<le> code c \<and> code c \<le> 57))"

definition re_match_ident :: "string \<Rightarrow> bool" where
  "re_match_ident s =
     (case s of
        [] \<Rightarrow> False
      | c # cs \<Rightarrow> is_ident_start c
          \<and> (dropWhile is_ident_char cs = [] \<or> dropWhile is_ident_char cs = [CHR 0x0A]))"

section \<open>Values, exceptions and what the script does to the outside\<close>

text \<open>Values that cross the database driver: column values and bind parameters.\<close>

datatype val = VNull | VStr string | VBool bool | VInt int | VFlt rat | VUuid nat

type_synonym row = "(string \<times> val) list"

text \<open>Truthiness of a value, as Python's \<open>or\<close> and \<open>not\<close> test it.\<close>

fun truthy :: "val \<Rightarrow> bool" where
  "truthy VNull = False"
| "truthy (VStr s) = (s \<noteq> [])"
| "truthy (VBool b) = b"
| "truthy (VInt i) = (i \<noteq> 0)"
| "truthy (VFlt r) = (r \<noteq> 0)"
| "truthy (VUuid u) = True"

text \<open>
  Exceptions: the class and \<open>str(e)\<close>. All of them derive from \<open>Exception\<close>; interrupts
  of the process (\<open>KeyboardInterrupt\<close>, cancellation) are outside the model.
\<close>

datatype exn_class =
  ValueError | EOFError | KeyError | TypeError | AttributeError | ImportError | DriverError

datatype exn = Exn exn_class string

fun exn_msg :: "exn \<Rightarrow> string" where
  "exn_msg (Exn k m) = m"

text \<open>The two prompts of \<open>confirm_action\<close>.\<close>

datatype prompt = PromptConfirmo | PromptSim

text \<open>Every line the script prints, with the parts filled in at run time.\<close>

datatype msg =
    MsgBanner | MsgRule
  | MsgUsage | MsgUsageComplete | MsgUsageData | MsgUsageCheck
  | MsgNoDotenv
  | MsgCheckOk
  | MsgUnknownAction string
  | MsgGeneralError string
  | MsgConnected
  | MsgConnectError nat nat string
  | MsgHintNetwork | MsgHintNetworkAdvice
  | MsgHintTls | MsgHintTlsAdvice
  | MsgWaiting rat
  | MsgConnectGiveUp
  | MsgClosed
  | MsgBackupStart
  | MsgSaved string nat
  | MsgBackupError string
  | MsgTruncStart | MsgTruncNone | MsgTruncOk string | MsgTruncDone
  | MsgTruncError string
  | MsgSeedStart | MsgSeedDone | MsgSeedError string
  | MsgCompleteStart | MsgCompleteOk | MsgSummary | MsgSummaryBackup nat
  | MsgSummaryTruncated | MsgSummaryAdmin
  | MsgCompleteError string
  | MsgDataStart | MsgDataOk | MsgDataKept | MsgDataRemoved
  | MsgDataError string
  | MsgWarnAbout string | MsgWarnErase | MsgWarnTarget
  | MsgCancelled | MsgConfirmed

text \<open>
  What a run does to the outside, in order. A call to the driver is recorded with its
  outcome (\<open>None\<close>: it returned; \<open>Some e\<close>: it raised \<open>e\<close>), a read of standard input
  with the line it returned.
\<close>

datatype event =
    Print msg
  | EvInput prompt "exn + string"
  | EvConnect string "exn option"
  | EvSleep rat
  | EvFetch string "exn option"
  | EvExecute string "val list" "exn option"
  | EvClose "exn option"

section \<open>Configuration: \<open>DatabaseReset.__init__\<close>\<close>

text \<open>
  The environment after \<open>load_dotenv()\<close>: the two variables the script reads, and whether
  a file \<open>.env\<close> exists.
\<close>

record config =
  env_public :: "string option"
  env_internal :: "string option"
  dotenv_exists :: bool

text \<open>\<open>a or b\<close> on two results of \<open>os.getenv\<close>.\<close>

definition or_url :: "string option \<Rightarrow> string option \<Rightarrow> string option" where
  "or_url a b = (case a of Some (c # cs) \<Rightarrow> a | _ \<Rightarrow> b)"

definition no_url_error :: exn where
  "no_url_error =
     Exn ValueError
       (''Nenhuma vari'' @ [CHR 0xE1] @ ''vel de conex'' @ [CHR 0xE3]
        @ ''o encontrada. Defina DATABASE_PUBLIC_URL ou DATABASE_URL.'')"

definition normalize_url :: "string \<Rightarrow> string" where
  "normalize_url u =
     (let u1 = (if startswith u ''postgresql+asyncpg://''
                then py_replace ''postgresql+asyncpg://'' ''postgresql://'' u else u)
      in if startswith u1 ''postgresql+psycopg2://''
         then py_replace ''postgresql+psycopg2://'' ''postgresql://'' u1 else u1)"

text \<open>The constructor returns \<open>self.database_url\<close>, or raises.\<close>

definition DatabaseReset_init :: "config \<Rightarrow> exn + string" where
  "DatabaseReset_init cfg =
     (case or_url (env_public cfg) (env_internal cfg) of
        None \<Rightarrow> Inl no_url_error
      | Some [] \<Rightarrow> Inl no_url_error
      | Some (c # cs) \<Rightarrow> Inr (normalize_url (c # cs)))"

section \<open>The driver and the state of a run\<close>

text \<open>
  The outside of the script is a parameter: a world \<open>'w\<close> and what each call does to it.
  \<open>d_connect\<close> is \<open>asyncpg.connect(url, timeout=10)\<close>; \<open>d_fetch\<close>, \<open>d_execute\<close> and
  \<open>d_close\<close> are the methods of the connection; \<open>d_input\<close> is \<open>input\<close>;
  \<open>d_password_hash\<close> is the import of \<open>werkzeug.security\<close> followed by
  \<open>generate_password_hash\<close>; \<open>d_uuid4\<close> is \<open>uuid.uuid4\<close>. A call that raises returns
  its exception.
\<close>

record 'w driver =
  d_connect :: "string \<Rightarrow> 'w \<Rightarrow> exn option \<times> 'w"
  d_close :: "'w \<Rightarrow> exn option \<times> 'w"
  d_fetch :: "string \<Rightarrow> 'w \<Rightarrow> (exn + row list) \<times> 'w"
  d_execute :: "string \<Rightarrow> val list \<Rightarrow> 'w \<Rightarrow> exn option \<times> 'w"
  d_input :: "'w \<Rightarrow> (exn + string) \<times> 'w"
  d_password_hash :: "string \<Rightarrow> 'w \<Rightarrow> (exn + string) \<times> 'w"
  d_uuid4 :: "'w \<Rightarrow> nat \<times> 'w"

text \<open>
  The \<open>DatabaseReset\<close> object (\<open>has_conn\<close>: the attribute \<open>conn\<close> has been set) and the
  world.
\<close>

record 'w st =
  has_conn :: bool
  database_url :: string
  world :: 'w

text \<open>
  A piece of the script maps a state to its outcome (\<open>Inl\<close>: the exception it raised), the
  state it leaves and the events it caused.
\<close>

type_synonym ('a, 'w) prog = "'w st \<Rightarrow> (exn + 'a) \<times> 'w st \<times> event list"

definition ret :: "'a \<Rightarrow> ('a, 'w) prog" where
  "ret x = (\<lambda>s. (Inr x, s, []))"

definition raise :: "exn \<Rightarrow> ('a, 'w) prog" where
  "raise e = (\<lambda>s. (Inl e, s, []))"

definition bnd :: "('a, 'w) prog \<Rightarrow> ('a \<Rightarrow> ('b, 'w) prog) \<Rightarrow> ('b, 'w) prog" where
  "bnd m f = (\<lambda>s. case m s of
       (Inl e, s1, ev1) \<Rightarrow> (Inl e, s1, ev1)
     | (Inr x, s1, ev1) \<Rightarrow> (case f x s1 of (r, s2, ev2) \<Rightarrow> (r, s2, ev1 @ ev2)))"

definition thn :: "('a, 'w) prog \<Rightarrow> ('b, 'w) prog \<Rightarrow> ('b, 'w) prog" where
  "thn m n = bnd m (\<lambda>x. n)"

text \<open>\<open>try: m except Exception as e: h e\<close>\<close>

definition try_except :: "('a, 'w) prog \<Rightarrow> (exn \<Rightarrow> ('a, 'w) prog) \<Rightarrow> ('a, 'w) prog" where
  "try_except m h = (\<lambda>s. case m s of
       (Inl e, s1, ev1) \<Rightarrow> (case h e s1 of (r, s2, ev2) \<Rightarrow> (r, s2, ev1 @ ev2))
     | (Inr x, s1, ev1) \<Rightarrow> (Inr x, s1, ev1))"

text \<open>
  \<open>try: m finally: fin\<close>. The \<open>finally\<close> block runs on return and on raise; an exception
  of its own replaces the outcome of \<open>m\<close>.
\<close>

definition try_finally :: "('a, 'w) prog \<Rightarrow> (unit, 'w) prog \<Rightarrow> ('a, 'w) prog" where
  "try_finally m fin = (\<lambda>s. case m s of
       (r, s1, ev1) \<Rightarrow> (case fin s1 of
           (Inl e, s2, ev2) \<Rightarrow> (Inl e, s2, ev1 @ ev2)
         | (Inr u, s2, ev2) \<Rightarrow> (r, s2, ev1 @ ev2)))"

definition says :: "msg list \<Rightarrow> (unit, 'w) prog" where
  "says ms = (\<lambda>s. (Inr (), s, map Print ms))"

definition say :: "msg \<Rightarrow> (unit, 'w) prog" where
  "say m = says [m]"

text \<open>\<open>input(prompt)\<close>\<close>

definition read_input :: "'w driver \<Rightarrow> prompt \<Rightarrow> (string, 'w) prog" where
  "read_input D p = (\<lambda>s. case d_input D (world s) of
       (r, w) \<Rightarrow> (r, s\<lparr>world := w\<rparr>, [EvInput p r]))"

text \<open>Reading \<open>self.conn\<close> before \<open>connect\<close> has set it raises.\<close>

definition no_conn_error :: exn where
  "no_conn_error =
     Exn AttributeError
       ([CHR 0x27] @ ''DatabaseReset'' @ [CHR 0x27] @ '' object has no attribute ''
        @ [CHR 0x27] @ ''conn'' @ [CHR 0x27])"

text \<open>\<open>await self.conn.fetch(sql)\<close>\<close>

definition conn_fetch :: "'w driver \<Rightarrow> string \<Rightarrow> (row list, 'w) prog" where
  "conn_fetch D sql = (\<lambda>s.
     if \<not> has_conn s then (Inl no_conn_error, s, [])
     else (case d_fetch D sql (world s) of
             (Inl e, w) \<Rightarrow> (Inl e, s\<lparr>world := w\<rparr>, [EvFetch sql (Some e)])
           | (Inr rows, w) \<Rightarrow> (Inr rows, s\<lparr>world := w\<rparr>, [EvFetch sql None])))"

text \<open>\<open>await self.conn.execute(sql, *args)\<close>\<close>

definition conn_execute :: "'w driver \<Rightarrow> string \<Rightarrow> val list \<Rightarrow> (unit, 'w) prog" where
  "conn_execute D sql args = (\<lambda>s.
     if \<not> has_conn s then (Inl no_conn_error, s, [])
     else (case d_execute D sql args (world s) of
             (Some e, w) \<Rightarrow> (Inl e, s\<lparr>world := w\<rparr>, [EvExecute sql args (Some e)])
           | (None, w) \<Rightarrow> (Inr (), s\<lparr>world := w\<rparr>, [EvExecute sql args None])))"

definition password_hash :: "'w driver \<Rightarrow> string \<Rightarrow> (string, 'w) prog" where
  "password_hash D pw = (\<lambda>s. case d_password_hash D pw (world s) of
       (r, w) \<Rightarrow> (r, s\<lparr>world := w\<rparr>, []))"

definition uuid4 :: "'w driver \<Rightarrow> (nat, 'w) prog" where
  "uuid4 D = (\<lambda>s. case d_uuid4 D (world s) of (u, w) \<Rightarrow> (Inr u, s\<lparr>world := w\<rparr>, []))"

section \<open>\<open>DatabaseReset.connect\<close> and \<open>DatabaseReset.close\<close>\<close>

text \<open>The hints printed after a failed attempt, chosen by the text of the exception.\<close>

definition connect_hints :: "string \<Rightarrow> event list" where
  "connect_hints m =
     (if contains m ''WinError 64'' then [Print MsgHintNetwork, Print MsgHintNetworkAdvice] else [])
     @ (if contains m ''TLS handshake timeout'' \<or> contains m ''handshake''
        then [Print MsgHintTls, Print MsgHintTlsAdvice] else [])"

text \<open>
  The loop \<open>for attempt in range(1, retries + 1)\<close>, over the attempts still to make. A
  failed attempt that is not the last one waits \<open>base_delay * attempt\<close> seconds.
\<close>

fun connect_attempts ::
  "'w driver \<Rightarrow> nat \<Rightarrow> rat \<Rightarrow> nat list \<Rightarrow> (bool, 'w) prog" where
  "connect_attempts D retries base_delay [] s =
     (Inr False, s, [Print MsgConnectGiveUp])"
| "connect_attempts D retries base_delay (attempt # rest) s =
     (case d_connect D (database_url s) (world s) of
        (None, w) \<Rightarrow>
          (Inr True, s\<lparr>world := w, has_conn := True\<rparr>,
           [EvConnect (database_url s) None, Print MsgConnected])
      | (Some e, w) \<Rightarrow>
          (case connect_attempts D retries base_delay rest (s\<lparr>world := w\<rparr>) of
             (r, s2, ev2) \<Rightarrow>
               (r, s2,
                [EvConnect (database_url s) (Some e),
                 Print (MsgConnectError attempt retries (exn_msg e))]
                @ connect_hints (exn_msg e)
                @ (if attempt < retries
                   then [Print (MsgWaiting (base_delay * of_nat attempt)),
                         EvSleep (base_delay * of_nat attempt)]
                   else [])
                @ ev2)))"

definition connect :: "'w driver \<Rightarrow> nat \<Rightarrow> rat \<Rightarrow> (bool, 'w) prog" where
  "connect D retries base_delay = connect_attempts D retries base_delay [1 ..< Suc retries]"

definition close :: "'w driver \<Rightarrow> (unit, 'w) prog" where
  "close D = (\<lambda>s.
     if has_conn s
     then (case d_close D (world s) of
             (Some e, w) \<Rightarrow> (Inl e, s\<lparr>world := w\<rparr>, [EvClose (Some e)])
           | (None, w) \<Rightarrow> (Inr (), s\<lparr>world := w\<rparr>, [EvClose None, Print MsgClosed]))
     else (Inr (), s, []))"

section \<open>The SQL texts\<close>

definition select_all :: "string \<Rightarrow> string" where
  "select_all t = ''SELECT * FROM '' @ t"

text \<open>The catalog query, with the line breaks and the indentation of the source.\<close>

definition catalog_query :: string where
  "catalog_query =
     [CHR 0x0A] @ ''                SELECT tablename''
     @ [CHR 0x0A] @ ''                FROM pg_tables''
     @ [CHR 0x0A] @ ''                WHERE schemaname = '' @ [CHR 0x27] @ ''public'' @ [CHR 0x27]
     @ [CHR 0x0A] @ ''                ''"

text \<open>\<open>f'TRUNCATE TABLE "{table}" RESTART IDENTITY CASCADE'\<close>\<close>

definition truncate_head :: string where
  "truncate_head = ''TRUNCATE TABLE '' @ [CHR 0x22]"

definition truncate_tail :: string where
  "truncate_tail = [CHR 0x22] @ '' RESTART IDENTITY CASCADE''"

definition truncate_sql :: "string \<Rightarrow> string" where
  "truncate_sql t = truncate_head @ t @ truncate_tail"

definition insert_admin_sql :: string where
  "insert_admin_sql =
     [CHR 0x0A] @ ''                INSERT INTO usuarios (''
     @ [CHR 0x0A] @ ''                    id, nome, usuario, senha_hash,''
     @ [CHR 0x0A] @ ''                    is_admin, ativo,''
     @ [CHR 0x0A] @ ''                    nivel, salario,''
     @ [CHR 0x0A]
     @ ''                    pode_abastecer, pode_gerenciar_despesas, pode_fazer_devolucao''
     @ [CHR 0x0A] @ ''                )''
     @ [CHR 0x0A] @ ''                VALUES ($1,$2,$3,$4,$5,$6,$7,$8,$9,$10,$11)''
     @ [CHR 0x0A] @ ''                ''"

section \<open>\<open>DatabaseReset.backup_data\<close>\<close>

text \<open>
  The dictionary \<open>backup_data\<close> keeps its keys in the order they were stored: an
  association list. One \<open>try\<close> surrounds the four fetches, and its handler returns \<open>{}\<close>.
\<close>

type_synonym backup = "(string \<times> row list) list"

definition backup_data :: "'w driver \<Rightarrow> (backup, 'w) prog" where
  "backup_data D =
     thn (say MsgBackupStart)
       (try_except
          (bnd (conn_fetch D (select_all ''usuarios'')) (\<lambda>users.
           thn (say (MsgSaved ''usuarios'' (length users)))
          (bnd (conn_fetch D (select_all ''produtos'')) (\<lambda>produtos.
           thn (say (MsgSaved ''produtos'' (length produtos)))
          (bnd (conn_fetch D (select_all ''clientes'')) (\<lambda>clientes.
           thn (say (MsgSaved ''clientes'' (length clientes)))
          (bnd (conn_fetch D (select_all ''vendas'')) (\<lambda>vendas.
           thn (say (MsgSaved ''vendas'' (length vendas)))
          (ret [(''usuarios'', users), (''produtos'', produtos),
                (''clientes'', clientes), (''vendas'', vendas)])))))))))
          (\<lambda>e. thn (say (MsgBackupError (exn_msg e))) (ret [])))"

section \<open>\<open>DatabaseReset.truncate_all_tables\<close>\<close>

text \<open>\<open>[t['tablename'] for t in tables]\<close>: a row without the column raises.\<close>

fun tablenames :: "row list \<Rightarrow> exn + val list" where
  "tablenames [] = Inr []"
| "tablenames (t # ts) =
     (case map_of t ''tablename'' of
        None \<Rightarrow> Inl (Exn KeyError ([CHR 0x27] @ ''tablename'' @ [CHR 0x27]))
      | Some v \<Rightarrow> (case tablenames ts of Inl e \<Rightarrow> Inl e | Inr vs \<Rightarrow> Inr (v # vs)))"

text \<open>\<open>table or ""\<close>\<close>

definition or_empty :: "val \<Rightarrow> val" where
  "or_empty v = (if truthy v then v else VStr [])"

text \<open>The subject of \<open>re.match\<close> has to be a string.\<close>

fun match_subject :: "val \<Rightarrow> exn + string" where
  "match_subject (VStr s) = Inr s"
| "match_subject v = Inl (Exn TypeError ''expected string or bytes-like object'')"

text \<open>
  The loop over \<open>table_names\<close>: a name that does not match is passed over
  (\<open>continue\<close>); an \<open>execute\<close> that raises ends the loop.
\<close>

fun truncate_loop :: "'w driver \<Rightarrow> val list \<Rightarrow> (unit, 'w) prog" where
  "truncate_loop D [] s = (Inr (), s, [])"
| "truncate_loop D (table # rest) s =
     (case match_subject (or_empty table) of
        Inl e \<Rightarrow> (Inl e, s, [])
      | Inr name \<Rightarrow>
          if \<not> re_match_ident name then truncate_loop D rest s
          else (case conn_execute D (truncate_sql name) [] s of
                  (Inl e, s1, ev1) \<Rightarrow> (Inl e, s1, ev1)
                | (Inr u, s1, ev1) \<Rightarrow>
                    (case truncate_loop D rest s1 of
                       (r, s2, ev2) \<Rightarrow> (r, s2, ev1 @ [Print (MsgTruncOk name)] @ ev2))))"

definition not_migration :: "val \<Rightarrow> bool" where
  "not_migration t = (t \<noteq> VStr ''alembic_version'')"

definition truncate_all_tables :: "'w driver \<Rightarrow> (unit, 'w) prog" where
  "truncate_all_tables D =
     thn (say MsgTruncStart)
       (try_except
          (bnd (conn_fetch D catalog_query) (\<lambda>tables.
           bnd (case tablenames tables of Inl e \<Rightarrow> raise e | Inr ns \<Rightarrow> ret ns) (\<lambda>table_names.
             if table_names = [] then say MsgTruncNone
             else thn (truncate_loop D (filter not_migration table_names)) (say MsgTruncDone))))
          (\<lambda>e. thn (say (MsgTruncError (exn_msg e))) (raise e)))"

section \<open>\<open>DatabaseReset.create_admin_user\<close>\<close>

definition admin_params :: "nat \<Rightarrow> string \<Rightarrow> val list" where
  "admin_params admin_uuid senha_hash =
     [VUuid admin_uuid, VStr ''Neotrix Tecnologias'', VStr ''Neotrix'', VStr senha_hash,
      VBool True, VBool True, VInt 2, VFlt 0, VBool True, VBool True, VBool True]"

text \<open>The handler prints and does not raise again.\<close>

definition create_admin_user :: "'w driver \<Rightarrow> (unit, 'w) prog" where
  "create_admin_user D =
     thn (say MsgSeedStart)
       (try_except
          (bnd (password_hash D ''842384'') (\<lambda>senha_hash.
           bnd (uuid4 D) (\<lambda>admin_uuid.
           thn (conn_execute D insert_admin_sql (admin_params admin_uuid senha_hash))
               (say MsgSeedDone))))
          (\<lambda>e. say (MsgSeedError (exn_msg e))))"

section \<open>The two workflows\<close>

definition reset_complete :: "'w driver \<Rightarrow> (unit, 'w) prog" where
  "reset_complete D =
     thn (says [MsgCompleteStart, MsgRule])
       (try_except
          (bnd (backup_data D) (\<lambda>backup.
           thn (truncate_all_tables D)
          (thn (create_admin_user D)
               (says [MsgRule, MsgCompleteOk, MsgSummary, MsgSummaryBackup (length backup),
                      MsgSummaryTruncated, MsgSummaryAdmin]))))
          (\<lambda>e. thn (say (MsgCompleteError (exn_msg e))) (raise e)))"

definition reset_data_only :: "'w driver \<Rightarrow> (unit, 'w) prog" where
  "reset_data_only D =
     thn (says [MsgDataStart, MsgRule])
       (try_except
          (bnd (backup_data D) (\<lambda>backup.
           thn (truncate_all_tables D)
          (thn (create_admin_user D)
               (says [MsgRule, MsgDataOk, MsgDataKept, MsgDataRemoved, MsgSummaryAdmin]))))
          (\<lambda>e. thn (say (MsgDataError (exn_msg e))) (raise e)))"

section \<open>\<open>confirm_action\<close> and \<open>main\<close>\<close>

definition confirm_action :: "'w driver \<Rightarrow> string \<Rightarrow> (bool, 'w) prog" where
  "confirm_action D action_name =
     thn (says [MsgWarnAbout action_name, MsgWarnErase, MsgWarnTarget])
    (bnd (read_input D PromptConfirmo) (\<lambda>confirm1.
       if py_strip confirm1 \<noteq> ''CONFIRMO'' then thn (say MsgCancelled) (ret False)
       else bnd (read_input D PromptSim) (\<lambda>confirm2.
         if py_strip confirm2 \<noteq> ''SIM'' then thn (say MsgCancelled) (ret False)
         else thn (say MsgConfirmed) (ret True))))"

text \<open>The chain of \<open>if\<close> and \<open>elif\<close> on the lower-cased argument.\<close>

definition dispatch :: "'w driver \<Rightarrow> string \<Rightarrow> (unit, 'w) prog" where
  "dispatch D action =
     (if action = ''check'' then say MsgCheckOk
      else if action = ''complete'' then
        bnd (confirm_action D ''fazer RESET COMPLETO do banco'') (\<lambda>c.
          if c then reset_complete D else ret ())
      else if action = ''data'' then
        bnd (confirm_action D ''LIMPAR TODOS OS DADOS do banco'') (\<lambda>c.
          if c then reset_data_only D else ret ())
      else say (MsgUnknownAction action))"

text \<open>The body of the \<open>try\<close> in \<open>main\<close>: a failed \<open>connect\<close> returns at once.\<close>

definition main_body :: "'w driver \<Rightarrow> string \<Rightarrow> (unit, 'w) prog" where
  "main_body D action =
     bnd (connect D 3 (3 / 2)) (\<lambda>ok. if \<not> ok then ret () else dispatch D action)"

definition main_try :: "'w driver \<Rightarrow> string \<Rightarrow> (unit, 'w) prog" where
  "main_try D action =
     try_finally
       (try_except (main_body D action) (\<lambda>e. say (MsgGeneralError (exn_msg e))))
       (close D)"

text \<open>
  \<open>main\<close>, for the argument vector \<open>sys.argv\<close>: the outcome (\<open>Inl\<close>: an exception left
  \<open>main\<close>), the world afterwards and the events of the run. The object is built before the
  \<open>try\<close>, so an exception of the constructor leaves \<open>main\<close>.
\<close>

definition usage :: "event list" where
  "usage = [Print MsgUsage, Print MsgUsageComplete, Print MsgUsageData, Print MsgUsageCheck]"

fun main :: "'w driver \<Rightarrow> config \<Rightarrow> string list \<Rightarrow> 'w \<Rightarrow> (exn + unit) \<times> 'w \<times> event list" where
  "main D cfg (script # arg # others) w =
     (let action = py_lower arg;
          head = [Print MsgBanner, Print MsgRule]
                 @ (if dotenv_exists cfg then [] else [Print MsgNoDotenv])
      in case DatabaseReset_init cfg of
           Inl e \<Rightarrow> (Inl e, w, head)
         | Inr url \<Rightarrow>
             (case main_try D action \<lparr>has_conn = False, database_url = url, world = w\<rparr> of
                (r, s, evs) \<Rightarrow> (r, world s, head @ evs)))"
| "main D cfg argv w = (Inr (), w, [Print MsgBanner, Print MsgRule] @ usage)"

section \<open>A simulated outside\<close>

text \<open>
  One world to run the script in: the tables of the public schema with their rows, the
  tables the role may not truncate, the lines waiting on standard input, the failures the
  next connection attempts meet, whether werkzeug is installed (and then the method, salt
  and digest its next hash is made of), and the next identifier \<open>uuid4\<close> returns.
  Columns and constraints are not represented, and \<open>CASCADE\<close> empties no second table.
\<close>

record sim_world =
  tables :: "(string \<times> row list) list"
  truncate_denied :: "string list"
  stdin :: "string list"
  connect_errors :: "exn list"
  werkzeug :: "(string \<times> string \<times> string) option"
  next_uuid :: nat

definition strip_suffix :: "string \<Rightarrow> string \<Rightarrow> string option" where
  "strip_suffix suf s = map_option rev (strip_prefix (rev suf) (rev s))"

text \<open>The table a \<open>TRUNCATE\<close> statement of the script names.\<close>

definition truncate_target :: "string \<Rightarrow> string option" where
  "truncate_target sql =
     (case strip_prefix truncate_head sql of
        None \<Rightarrow> None
      | Some r \<Rightarrow> strip_suffix truncate_tail r)"

definition admin_columns :: "string list" where
  "admin_columns =
     [''id'', ''nome'', ''usuario'', ''senha_hash'', ''is_admin'', ''ativo'', ''nivel'',
      ''salario'', ''pode_abastecer'', ''pode_gerenciar_despesas'', ''pode_fazer_devolucao'']"

definition no_relation :: exn where
  "no_relation = Exn DriverError ''relation does not exist''"

definition bad_statement :: exn where
  "bad_statement = Exn DriverError ''statement not understood''"

definition permission_denied :: exn where
  "permission_denied = Exn DriverError ''permission denied''"

definition has_table :: "sim_world \<Rightarrow> string \<Rightarrow> bool" where
  "has_table w t = (t \<in> set (map fst (tables w)))"

definition empty_table :: "string \<Rightarrow> (string \<times> row list) list \<Rightarrow> (string \<times> row list) list" where
  "empty_table t ts = map (\<lambda>(n, rows). if n = t then (n, []) else (n, rows)) ts"

definition add_row :: "string \<Rightarrow> row \<Rightarrow> (string \<times> row list) list \<Rightarrow> (string \<times> row list) list" where
  "add_row t r ts = map (\<lambda>(n, rows). if n = t then (n, rows @ [r]) else (n, rows)) ts"

definition sim_connect :: "string \<Rightarrow> sim_world \<Rightarrow> exn option \<times> sim_world" where
  "sim_connect url w =
     (case connect_errors w of
        [] \<Rightarrow> (None, w)
      | e # es \<Rightarrow> (Some e, w\<lparr>connect_errors := es\<rparr>))"

definition sim_close :: "sim_world \<Rightarrow> exn option \<times> sim_world" where
  "sim_close w = (None, w)"

definition sim_fetch :: "string \<Rightarrow> sim_world \<Rightarrow> (exn + row list) \<times> sim_world" where
  "sim_fetch sql w =
     (if sql = catalog_query
      then (Inr (map (\<lambda>t. [(''tablename'', VStr (fst t))]) (tables w)), w)
      else (case strip_prefix ''SELECT * FROM '' sql of
              None \<Rightarrow> (Inl bad_statement, w)
            | Some t \<Rightarrow>
                (case map_of (tables w) t of
                   None \<Rightarrow> (Inl no_relation, w)
                 | Some rows \<Rightarrow> (Inr rows, w))))"

definition sim_execute :: "string \<Rightarrow> val list \<Rightarrow> sim_world \<Rightarrow> exn option \<times> sim_world" where
  "sim_execute sql args w =
     (case truncate_target sql of
        Some t \<Rightarrow>
          if t \<in> set (truncate_denied w) then (Some permission_denied, w)
          else if has_table w t then (None, w\<lparr>tables := empty_table t (tables w)\<rparr>)
          else (Some no_relation, w)
      | None \<Rightarrow>
          if sql = insert_admin_sql
          then (if has_table w ''usuarios'' \<and> length args = length admin_columns
                then (None, w\<lparr>tables := add_row ''usuarios'' (zip admin_columns args) (tables w)\<rparr>)
                else (Some no_relation, w))
          else (Some bad_statement, w))"

definition sim_input :: "sim_world \<Rightarrow> (exn + string) \<times> sim_world" where
  "sim_input w =
     (case stdin w of
        [] \<Rightarrow> (Inl (Exn EOFError ''EOF when reading a line''), w)
      | l # ls \<Rightarrow> (Inr l, w\<lparr>stdin := ls\<rparr>))"

text \<open>werkzeug returns the method, the salt and the digest, joined by dollar signs.\<close>

definition sim_password_hash :: "string \<Rightarrow> sim_world \<Rightarrow> (exn + string) \<times> sim_world" where
  "sim_password_hash pw w =
     (case werkzeug w of
        None \<Rightarrow> (Inl (Exn ImportError ''No module named werkzeug''), w)
      | Some (method, salt, digest) \<Rightarrow> (Inr (method @ ''$'' @ salt @ ''$'' @ digest), w))"

definition sim_uuid4 :: "sim_world \<Rightarrow> nat \<times> sim_world" where
  "sim_uuid4 w = (next_uuid w, w\<lparr>next_uuid := Suc (next_uuid w)\<rparr>)"

definition sim :: "sim_world driver" where
  "sim = \<lparr>d_connect = sim_connect, d_close = sim_close, d_fetch = sim_fetch,
          d_execute = sim_execute, d_input = sim_input,
          d_password_hash = sim_password_hash, d_uuid4 = sim_uuid4\<rparr>"

text \<open>A configuration with a connection string, one without, and a database to start from.\<close>

definition cfg_url :: config where
  "cfg_url = \<lparr>env_public = None, env_internal = Some ''postgresql+asyncpg://u:p@host/loja'',
              dotenv_exists = True\<rparr>"

definition cfg_none :: config where
  "cfg_none = \<lparr>env_public = None, env_internal = None, dotenv_exists = False\<rparr>"

definition old_user :: row where
  "old_user = [(''usuario'', VStr ''maria''), (''is_admin'', VBool False)]"

definition shop :: sim_world where
  "shop = \<lparr>tables = [(''usuarios'', [old_user]), (''produtos'', []), (''clientes'', []),
                     (''vendas'', []), (''itens_venda'', []), (''alembic_version'', [[]])],
           truncate_denied = [], stdin = [], connect_errors = [],
           werkzeug = Some (''scrypt:32768:8:1'', ''c2FsdA'', ''0f3a''), next_uuid = 7\<rparr>"

text \<open>The same shop, with an operator who confirms and a role that may not empty \<open>produtos\<close>.\<close>

definition shop_confirmed :: sim_world where
  "shop_confirmed = shop\<lparr>stdin := [''CONFIRMO'', ''SIM'']\<rparr>"

definition shop_denied :: sim_world where
  "shop_denied = shop\<lparr>stdin := [''CONFIRMO'', ''SIM''], truncate_denied := [''produtos'']\<rparr>"

definition argv_of :: "string \<Rightarrow> string list" where
  "argv_of arg = [''reset_database_online.py'', arg]"

text \<open>Operators who answer otherwise.\<close>

definition shop_refused :: sim_world where
  "shop_refused = shop\<lparr>stdin := [''CONFIRMO'', ''nao'']\<rparr>"

definition shop_lowercase :: sim_world where
  "shop_lowercase = shop\<lparr>stdin := [''confirmo'', ''SIM'']\<rparr>"

definition shop_padded :: sim_world where
  "shop_padded = shop\<lparr>stdin := ['' CONFIRMO'', ''SIM  '']\<rparr>"

text \<open>The state of the object once connected to a world.\<close>

definition live :: "sim_world \<Rightarrow> sim_world st" where
  "live w = \<lparr>has_conn = True, database_url = ''postgresql://u:p@host/loja'', world = w\<rparr>"

text \<open>A database in which only \<open>usuarios\<close> exists.\<close>

definition shop_partial :: sim_world where
  "shop_partial = shop\<lparr>tables := [(''usuarios'', [old_user])]\<rparr>"

text \<open>A database with a table whose name needs quoting.\<close>

definition shop_odd :: sim_world where
  "shop_odd = shop\<lparr>tables := [(''usuarios'', [old_user]), (''itens-venda'', [])]\<rparr>"


section \<open>Observing a run\<close>

text \<open>
  A piece of the script, and \<open>main\<close>, return a triple: the outcome, what is left (the
  state, or the world), and the events.
\<close>

abbreviation outcome :: "'a \<times> 'b \<times> 'c \<Rightarrow> 'a" where
  "outcome r \<equiv> fst r"

abbreviation after :: "'a \<times> 'b \<times> 'c \<Rightarrow> 'b" where
  "after r \<equiv> fst (snd r)"

abbreviation events :: "'a \<times> 'b \<times> 'c \<Rightarrow> 'c" where
  "events r \<equiv> snd (snd r)"

text \<open>
  The kinds of event: a printed line, a read of standard input, a connection attempt, an
  attempt that succeeded, an SQL statement sent (by \<open>fetch\<close> or by \<open>execute\<close>), a close
  of the connection.
\<close>

fun is_print :: "event \<Rightarrow> bool" where
  "is_print (Print m) = True"
| "is_print e = False"

fun is_input :: "event \<Rightarrow> bool" where
  "is_input (EvInput p r) = True"
| "is_input e = False"

fun is_connect :: "event \<Rightarrow> bool" where
  "is_connect (EvConnect u r) = True"
| "is_connect e = False"

fun is_connected :: "event \<Rightarrow> bool" where
  "is_connected (EvConnect u None) = True"
| "is_connected e = False"

fun is_fetch :: "event \<Rightarrow> bool" where
  "is_fetch (EvFetch q r) = True"
| "is_fetch e = False"

fun is_execute :: "event \<Rightarrow> bool" where
  "is_execute (EvExecute q a r) = True"
| "is_execute e = False"

fun is_sql :: "event \<Rightarrow> bool" where
  "is_sql (EvFetch q r) = True"
| "is_sql (EvExecute q a r) = True"
| "is_sql e = False"

fun is_close :: "event \<Rightarrow> bool" where
  "is_close (EvClose r) = True"
| "is_close e = False"

fun fetch_failed :: "event \<Rightarrow> bool" where
  "fetch_failed (EvFetch q (Some e)) = True"
| "fetch_failed e = False"


fun execute_failed :: "event \<Rightarrow> bool" where
  "execute_failed (EvExecute q a (Some e)) = True"
| "execute_failed e = False"

text \<open>The exception a call to the driver ended with, if it did.\<close>

fun failure :: "event \<Rightarrow> exn option" where
  "failure (EvConnect u r) = r"
| "failure (EvFetch q r) = r"
| "failure (EvExecute q a r) = r"
| "failure (EvClose r) = r"
| "failure e = None"

text \<open>The text of the statement an event sent, and the statements of a run in order.\<close>

fun statement :: "event \<Rightarrow> string" where
  "statement (EvFetch q r) = q"
| "statement (EvExecute q a r) = q"
| "statement e = []"

definition executed :: "event list \<Rightarrow> string list" where
  "executed evs = map statement (filter is_execute evs)"

definition fetched :: "event list \<Rightarrow> string list" where
  "fetched evs = map statement (filter is_fetch evs)"

text \<open>Everything a run did to the outside but print.\<close>

definition nonprints :: "event list \<Rightarrow> event list" where
  "nonprints evs = filter (\<lambda>e. \<not> is_print e) evs"

text \<open>
  An answer to a prompt that, with the white space at its ends removed, is not the word the
  prompt asks for.
\<close>

fun mismatch :: "event \<Rightarrow> bool" where
  "mismatch (EvInput PromptConfirmo (Inr a)) = (py_strip a \<noteq> ''CONFIRMO'')"
| "mismatch (EvInput PromptSim (Inr a)) = (py_strip a \<noteq> ''SIM'')"
| "mismatch e = False"

definition gate_mismatch :: "event list \<Rightarrow> bool" where
  "gate_mismatch evs = list_ex mismatch evs"

text \<open>A read of standard input returned a line that, stripped, is the word \<open>tok\<close>.\<close>

definition answered :: "exn + string \<Rightarrow> string \<Rightarrow> bool" where
  "answered r tok = (case r of Inl e \<Rightarrow> False | Inr a \<Rightarrow> py_strip a = tok)"

text \<open>What \<open>main\<close> prints before it builds the object, and in its handler.\<close>

definition run_head :: "config \<Rightarrow> event list" where
  "run_head cfg =
     [Print MsgBanner, Print MsgRule] @ (if dotenv_exists cfg then [] else [Print MsgNoDotenv])"

definition general_error :: "exn + unit \<Rightarrow> event list" where
  "general_error r = (case r of Inl e \<Rightarrow> [Print (MsgGeneralError (exn_msg e))] | Inr u \<Rightarrow> [])"

text \<open>
  The three workflows of the command line, the name of each, and what each does once the
  connection is there: \<open>check\<close> reports that the connection works; \<open>complete\<close> and
  \<open>data\<close> ask for confirmation and, when it is given, run \<open>reset_complete\<close> and
  \<open>reset_data_only\<close>.
\<close>

datatype workflow = WfCheck | WfComplete | WfData

definition workflow_named :: "string \<Rightarrow> workflow option" where
  "workflow_named a =
     (if a = ''check'' then Some WfCheck
      else if a = ''complete'' then Some WfComplete
      else if a = ''data'' then Some WfData
      else None)"

fun perform :: "'w driver \<Rightarrow> workflow \<Rightarrow> (unit, 'w) prog" where
  "perform D WfCheck = say MsgCheckOk"
| "perform D WfComplete =
     bnd (confirm_action D ''fazer RESET COMPLETO do banco'') (\<lambda>c.
       if c then reset_complete D else ret ())"
| "perform D WfData =
     bnd (confirm_action D ''LIMPAR TODOS OS DADOS do banco'') (\<lambda>c.
       if c then reset_data_only D else ret ())"

text \<open>
  A run for a name: connect; if connected, perform the workflow of that name, or say that
  the name is not recognised; report an exception; close.
\<close>

definition run_named :: "'w driver \<Rightarrow> string \<Rightarrow> (unit, 'w) prog" where
  "run_named D a =
     try_finally
       (try_except
          (bnd (connect D 3 (3 / 2)) (\<lambda>ok.
             if \<not> ok then ret ()
             else (case workflow_named a of
                     Some flow \<Rightarrow> perform D flow
                   | None \<Rightarrow> say (MsgUnknownAction a))))
          (\<lambda>e. say (MsgGeneralError (exn_msg e))))
       (close D)"

text \<open>The three steps both workflows take: backup, truncation, seeding.\<close>

definition steps :: "'w driver \<Rightarrow> (unit, 'w) prog" where
  "steps D = bnd (backup_data D) (\<lambda>backup. thn (truncate_all_tables D) (create_admin_user D))"

text \<open>The tables \<open>backup_data\<close> reads.\<close>

definition backup_tables :: "string list" where
  "backup_tables = [''usuarios'', ''produtos'', ''clientes'', ''vendas'']"

text \<open>
  What the backup is measured against: the tables of a list fetched one after the other,
  from a world, up to the first fetch that fails. The result is the rows of each table
  (or the exception of the failed fetch), the world afterwards, and the fetches made, each
  with its outcome.
\<close>

fun fetch_each :: "'w driver \<Rightarrow> string list \<Rightarrow> 'w \<Rightarrow> (exn + backup) \<times> 'w \<times> event list" where
  "fetch_each D [] w = (Inr [], w, [])"
| "fetch_each D (t # ts) w =
     (case d_fetch D (select_all t) w of
        (Inl e, w1) \<Rightarrow> (Inl e, w1, [EvFetch (select_all t) (Some e)])
      | (Inr rows, w1) \<Rightarrow>
          (case fetch_each D ts w1 of
             (Inl e, w2, evs) \<Rightarrow> (Inl e, w2, EvFetch (select_all t) None # evs)
           | (Inr b, w2, evs) \<Rightarrow> (Inr ((t, rows) # b), w2, EvFetch (select_all t) None # evs)))"

text \<open>
  Of the names in the catalog, those \<open>truncate_all_tables\<close> is to truncate: not the
  migration table, and accepted by \<open>re.match\<close>.
\<close>

definition truncated_names :: "string list \<Rightarrow> string list" where
  "truncated_names ns = filter re_match_ident (filter (\<lambda>n. n \<noteq> ''alembic_version'') ns)"


text \<open>
  For the proofs: the events a piece of the script can cause, by kind, and that a piece
  leaves \<open>has_conn\<close> as it found it and causes only events of one kind.
\<close>

definition talks_sql :: "event \<Rightarrow> bool" where
  "talks_sql e = (is_print e \<or> is_sql e)"

definition talks_input :: "event \<Rightarrow> bool" where
  "talks_input e = (is_print e \<or> is_input e)"

definition talks_io :: "event \<Rightarrow> bool" where
  "talks_io e = (is_print e \<or> is_input e \<or> is_sql e)"

fun connect_msg :: "msg \<Rightarrow> bool" where
  "connect_msg MsgConnected = True"
| "connect_msg (MsgConnectError a n m) = True"
| "connect_msg MsgHintNetwork = True"
| "connect_msg MsgHintNetworkAdvice = True"
| "connect_msg MsgHintTls = True"
| "connect_msg MsgHintTlsAdvice = True"
| "connect_msg (MsgWaiting d) = True"
| "connect_msg MsgConnectGiveUp = True"
| "connect_msg m = False"

fun talks_dial :: "event \<Rightarrow> bool" where
  "talks_dial (Print m) = connect_msg m"
| "talks_dial (EvConnect u r) = True"
| "talks_dial (EvSleep d) = True"
| "talks_dial e = False"

definition keeps :: "(event \<Rightarrow> bool) \<Rightarrow> ('a, 'w) prog \<Rightarrow> bool" where
  "keeps P m = (\<forall>s. has_conn (after (m s)) = has_conn s \<and> list_all P (events (m s)))"

section \<open>Lemmas about the script\<close>

subsection \<open>What each piece leaves alone\<close>

text \<open>
  A piece that \<open>keeps P\<close> leaves \<open>has_conn\<close> as it found it and causes only events
  that satisfy \<open>P\<close>; the combinators preserve this.
\<close>

lemma keepsD:
  "keeps P m \<Longrightarrow> has_conn (after (m s)) = has_conn s"
  "keeps P m \<Longrightarrow> list_all P (events (m s))"
  by (simp_all add: keeps_def)

lemma keeps_ret: "keeps P (ret x)"
  by (simp add: keeps_def ret_def)

lemma keeps_raise: "keeps P (raise e)"
  by (simp add: keeps_def raise_def)

lemma keeps_says: "list_all (\<lambda>m. P (Print m)) ms \<Longrightarrow> keeps P (says ms)"
  by (simp add: keeps_def says_def list_all_iff)

lemma keeps_say: "P (Print m) \<Longrightarrow> keeps P (say m)"
  by (simp add: say_def keeps_says)

lemma keeps_bnd:
  assumes "keeps P m" and "\<And>x. keeps P (f x)"
  shows "keeps P (bnd m f)"
  unfolding keeps_def
proof
  fix s
  obtain r s1 ev1 where m: "m s = (r, s1, ev1)"
    by (cases "m s") auto
  have m1: "has_conn s1 = has_conn s" "list_all P ev1"
    using keepsD [OF assms(1), of s] m by simp_all
  show "has_conn (after (bnd m f s)) = has_conn s \<and> list_all P (events (bnd m f s))"
  proof (cases r)
    case (Inl e)
    then show ?thesis using m m1 by (simp add: bnd_def)
  next
    case (Inr x)
    obtain r2 s2 ev2 where f: "f x s1 = (r2, s2, ev2)"
      by (cases "f x s1") auto
    have "has_conn s2 = has_conn s1" "list_all P ev2"
      using keepsD [OF assms(2), of x s1] f by simp_all
    then show ?thesis using m m1 Inr f by (simp add: bnd_def)
  qed
qed

lemma keeps_thn: "keeps P m \<Longrightarrow> keeps P n \<Longrightarrow> keeps P (thn m n)"
  by (simp add: thn_def keeps_bnd)

lemma keeps_try_except:
  assumes "keeps P m" and "\<And>e. keeps P (h e)"
  shows "keeps P (try_except m h)"
  unfolding keeps_def
proof
  fix s
  obtain r s1 ev1 where m: "m s = (r, s1, ev1)"
    by (cases "m s") auto
  have m1: "has_conn s1 = has_conn s" "list_all P ev1"
    using keepsD [OF assms(1), of s] m by simp_all
  show "has_conn (after (try_except m h s)) = has_conn s \<and> list_all P (events (try_except m h s))"
  proof (cases r)
    case (Inr x)
    then show ?thesis using m m1 by (simp add: try_except_def)
  next
    case (Inl e)
    obtain r2 s2 ev2 where h: "h e s1 = (r2, s2, ev2)"
      by (cases "h e s1") auto
    have "has_conn s2 = has_conn s1" "list_all P ev2"
      using keepsD [OF assms(2), of e s1] h by simp_all
    then show ?thesis using m m1 Inl h by (simp add: try_except_def)
  qed
qed

lemma keeps_read_input: "(\<And>r. P (EvInput p r)) \<Longrightarrow> keeps P (read_input D p)"
  by (simp add: keeps_def read_input_def split: prod.splits)

lemma keeps_conn_fetch: "(\<And>r. P (EvFetch q r)) \<Longrightarrow> keeps P (conn_fetch D q)"
  by (simp add: keeps_def conn_fetch_def split: prod.splits sum.splits)

lemma keeps_conn_execute: "(\<And>r. P (EvExecute q a r)) \<Longrightarrow> keeps P (conn_execute D q a)"
  by (simp add: keeps_def conn_execute_def split: prod.splits option.splits)

lemma keeps_password_hash: "keeps P (password_hash D pw)"
  by (simp add: keeps_def password_hash_def split: prod.splits)

lemma keeps_uuid4: "keeps P (uuid4 D)"
  by (simp add: keeps_def uuid4_def split: prod.splits)

lemma keeps_backup_data: "keeps talks_sql (backup_data D)"
  unfolding backup_data_def
  by (intro keeps_thn keeps_try_except keeps_bnd keeps_say keeps_ret keeps_conn_fetch)
     (simp_all add: talks_sql_def)

lemma keeps_truncate_loop: "keeps talks_sql (truncate_loop D ns)"
  unfolding keeps_def
proof (induction ns)
  case Nil
  show ?case by simp
next
  case (Cons n ns)
  show ?case
  proof
    fix s
    let ?goal = "has_conn (after (truncate_loop D (n # ns) s)) = has_conn s
        \<and> list_all talks_sql (events (truncate_loop D (n # ns) s))"
    show ?goal
    proof (cases "match_subject (or_empty n)")
      case (Inl e)
      then show ?thesis by simp
    next
      case (Inr name)
      show ?thesis
      proof (cases "re_match_ident name")
        case False
        then show ?thesis using Inr Cons by simp
      next
        case True
        have "keeps talks_sql (conn_execute D (truncate_sql name) [])"
          by (rule keeps_conn_execute) (simp add: talks_sql_def)
        note ex = keepsD [OF this, of s]
        obtain r1 s1 ev1 where c: "conn_execute D (truncate_sql name) [] s = (r1, s1, ev1)"
          by (cases "conn_execute D (truncate_sql name) [] s") auto
        obtain r2 s2 ev2 where l: "truncate_loop D ns s1 = (r2, s2, ev2)"
          by (cases "truncate_loop D ns s1") auto
        have "has_conn s2 = has_conn s1" "list_all talks_sql ev2"
          using Cons [rule_format, of s1] l by simp_all
        then show ?thesis
          using Inr True c l ex by (cases r1) (simp_all add: talks_sql_def)
      qed
    qed
  qed
qed

lemma keeps_truncate_all_tables: "keeps talks_sql (truncate_all_tables D)"
  unfolding truncate_all_tables_def
  by (intro keeps_thn keeps_try_except keeps_bnd keeps_say keeps_ret keeps_raise keeps_conn_fetch)
     (auto simp: talks_sql_def keeps_raise keeps_ret keeps_say keeps_thn keeps_truncate_loop
           split: sum.splits)

lemma keeps_create_admin_user: "keeps talks_sql (create_admin_user D)"
  unfolding create_admin_user_def
  by (intro keeps_thn keeps_try_except keeps_bnd keeps_say keeps_conn_execute
        keeps_password_hash keeps_uuid4)
     (simp_all add: talks_sql_def)

lemma keeps_reset_complete: "keeps talks_sql (reset_complete D)"
  unfolding reset_complete_def
  by (intro keeps_thn keeps_try_except keeps_bnd keeps_say keeps_says keeps_raise
        keeps_backup_data keeps_truncate_all_tables keeps_create_admin_user)
     (simp_all add: talks_sql_def)

lemma keeps_reset_data_only: "keeps talks_sql (reset_data_only D)"
  unfolding reset_data_only_def
  by (intro keeps_thn keeps_try_except keeps_bnd keeps_say keeps_says keeps_raise
        keeps_backup_data keeps_truncate_all_tables keeps_create_admin_user)
     (simp_all add: talks_sql_def)

lemma keeps_confirm_action: "keeps talks_input (confirm_action D n)"
  unfolding confirm_action_def
  by (intro keeps_thn keeps_bnd keeps_says keeps_read_input)
     (simp_all add: talks_input_def keeps_thn keeps_say keeps_ret keeps_bnd keeps_read_input)

lemma keeps_weaken: "keeps P m \<Longrightarrow> (\<And>e. P e \<Longrightarrow> Q e) \<Longrightarrow> keeps Q m"
  by (auto simp: keeps_def list_all_iff)

subsection \<open>Connecting\<close>

text \<open>
  \<open>connect\<close> never raises; it sets \<open>has_conn\<close> exactly when it returns \<open>True\<close>, after
  exactly one successful attempt.
\<close>

lemma filter_none: "list_all P xs \<Longrightarrow> (\<And>x. P x \<Longrightarrow> \<not> Q x) \<Longrightarrow> filter Q xs = []"
  by (induction xs) auto

lemma connect_attempts_props:
  "\<exists>b. outcome (connect_attempts D n d as s) = Inr b
      \<and> has_conn (after (connect_attempts D n d as s)) = (has_conn s \<or> b)
      \<and> list_all talks_dial (events (connect_attempts D n d as s))
      \<and> length (filter is_connected (events (connect_attempts D n d as s))) = (if b then 1 else 0)"
proof (induction as arbitrary: s)
  case Nil
  show ?case by (rule exI [of _ False]) simp
next
  case (Cons a as)
  obtain r w where c: "d_connect D (database_url s) (world s) = (r, w)"
    by (cases "d_connect D (database_url s) (world s)") auto
  show ?case
  proof (cases r)
    case None
    then show ?thesis using c by (intro exI [of _ True]) simp
  next
    case (Some e)
    obtain r2 s2 ev2 where l: "connect_attempts D n d as (s\<lparr>world := w\<rparr>) = (r2, s2, ev2)"
      by (cases "connect_attempts D n d as (s\<lparr>world := w\<rparr>)") auto
    have hints: "list_all talks_dial (connect_hints (exn_msg e))"
        "filter is_connected (connect_hints (exn_msg e)) = []"
      by (simp_all add: connect_hints_def)
    from Cons [of "s\<lparr>world := w\<rparr>"] l obtain b where
      "r2 = Inr b" "has_conn s2 = (has_conn s \<or> b)" "list_all talks_dial ev2"
      "length (filter is_connected ev2) = (if b then 1 else 0)"
      by auto
    then show ?thesis
      using c Some l hints by simp
  qed
qed

lemma connect_attempts_dials:
  "as \<noteq> [] \<Longrightarrow> list_ex is_connect (events (connect_attempts D n d as s))"
  by (cases as) (auto split: prod.splits option.splits)

lemma three_attempts: "[1 ..< Suc 3] = [1, 2, 3]"
  by (simp add: upt_rec)

lemma connect_props:
  "\<exists>b. outcome (connect D 3 d s) = Inr b
      \<and> has_conn (after (connect D 3 d s)) = (has_conn s \<or> b)
      \<and> list_all talks_dial (events (connect D 3 d s))
      \<and> length (filter is_connected (events (connect D 3 d s))) = (if b then 1 else 0)
      \<and> list_ex is_connect (events (connect D 3 d s))"
  unfolding connect_def
  using connect_attempts_props [of D 3 d "[1 ..< Suc 3]" s]
    connect_attempts_dials [of "[1 ..< Suc 3]" D 3 d s]
  by (auto simp: three_attempts)

subsection \<open>The runs of \<open>main\<close>\<close>

text \<open>
  Every run of \<open>main\<close> is of one of three shapes: the usage lines; the error of the
  constructor; or a connection phase, the dispatch if it connected, the handler's line if the
  dispatch raised, and the close.
\<close>

lemma keeps_gated:
  assumes "keeps talks_sql m"
  shows "keeps talks_io (bnd (confirm_action D n) (\<lambda>c. if c then m else ret ()))"
proof (rule keeps_bnd)
  show "keeps talks_io (confirm_action D n)"
    by (rule keeps_weaken [OF keeps_confirm_action]) (auto simp: talks_io_def talks_input_def)
next
  fix c
  have "keeps talks_io m"
    by (rule keeps_weaken [OF assms]) (auto simp: talks_io_def talks_sql_def)
  then show "keeps talks_io (if c then m else ret ())"
    by (simp add: keeps_ret)
qed

lemma keeps_dispatch: "keeps talks_io (dispatch D action)"
  unfolding dispatch_def
  by (simp add: keeps_gated keeps_reset_complete keeps_reset_data_only keeps_say talks_io_def)

lemma talks_io_simps [simp]:
  "talks_io (Print m)" "talks_io (EvInput p r)" "talks_io (EvFetch q x)" "talks_io (EvExecute q a x)"
  by (simp_all add: talks_io_def)

lemma close_nonprints:
  "filter (\<lambda>e. \<not> is_print e) (events (close D s)) =
     (if has_conn s then [EvClose (fst (d_close D (world s)))] else [])"
  by (simp add: close_def split: prod.splits option.splits)

lemma main_try_run:
  assumes "\<not> has_conn s"
  obtains b s1 ev1 r2 s2 ev2 where
    "connect D 3 (3 / 2) s = (Inr b, s1, ev1)"
    "has_conn s1 = b"
    "list_all talks_dial ev1"
    "length (filter is_connected ev1) = (if b then 1 else 0)"
    "list_ex is_connect ev1"
    "(if b then dispatch D a s1 else (Inr (), s1, [])) = (r2, s2, ev2)"
    "has_conn s2 = b"
    "list_all talks_io ev2"
    "main_try D a s =
       (outcome (close D s2), after (close D s2),
        ev1 @ ev2 @ general_error r2 @ events (close D s2))"
proof -
  obtain rb s1 ev1 where c: "connect D 3 (3 / 2) s = (rb, s1, ev1)"
    by (cases "connect D 3 (3 / 2) s") auto
  from connect_props [of D "3 / 2" s] c assms obtain b where
    b: "rb = Inr b" "has_conn s1 = b" "list_all talks_dial ev1"
       "length (filter is_connected ev1) = (if b then 1 else 0)" "list_ex is_connect ev1"
    by auto
  obtain r2 s2 ev2 where d: "(if b then dispatch D a s1 else (Inr (), s1, [])) = (r2, s2, ev2)"
    by (cases "if b then dispatch D a s1 else (Inr (), s1, [])") auto
  have k: "has_conn s2 = b" "list_all talks_io ev2"
    using d b(2) keepsD [OF keeps_dispatch, of D a s1] by (auto split: if_splits)
  obtain rc s3 ev3 where cl: "close D s2 = (rc, s3, ev3)"
    by (cases "close D s2") auto
  have body: "main_body D a s = (r2, s2, ev1 @ ev2)"
    using c b(1) d by (auto simp: main_body_def bnd_def ret_def split: if_splits)
  have "try_except (main_body D a) (\<lambda>e. say (MsgGeneralError (exn_msg e))) s
      = (Inr (), s2, ev1 @ ev2 @ general_error r2)"
    using body by (cases r2) (simp_all add: try_except_def say_def says_def general_error_def)
  then have "main_try D a s =
       (outcome (close D s2), after (close D s2),
        ev1 @ ev2 @ general_error r2 @ events (close D s2))"
    using cl by (cases rc) (simp_all add: main_try_def try_finally_def close_def split: if_splits prod.splits option.splits)
  with c b d k show thesis
    using that by blast
qed

lemma main_runs:
  obtains
    (usage) "main D cfg argv w = (Inr (), w, [Print MsgBanner, Print MsgRule] @ usage)"
      "argv = [] \<or> (\<exists>script. argv = [script])"
  | (unconfigured) script arg others e where
      "argv = script # arg # others" "DatabaseReset_init cfg = Inl e"
      "main D cfg argv w = (Inl e, w, run_head cfg)"
  | (connecting) script arg others url b s1 ev1 r2 s2 ev2 where
      "argv = script # arg # others" "DatabaseReset_init cfg = Inr url"
      "connect D 3 (3 / 2) \<lparr>has_conn = False, database_url = url, world = w\<rparr> = (Inr b, s1, ev1)"
      "has_conn s1 = b"
      "list_all talks_dial ev1"
      "length (filter is_connected ev1) = (if b then 1 else 0)"
      "list_ex is_connect ev1"
      "(if b then dispatch D (py_lower arg) s1 else (Inr (), s1, [])) = (r2, s2, ev2)"
      "has_conn s2 = b"
      "list_all talks_io ev2"
      "main D cfg argv w =
         (outcome (close D s2), world (after (close D s2)),
          run_head cfg @ ev1 @ ev2 @ general_error r2 @ events (close D s2))"
proof (cases argv)
  case Nil
  then show thesis using usage by simp
next
  case (Cons script rest)
  show thesis
  proof (cases rest)
    case Nil
    then show thesis using usage Cons by simp
  next
    case (Cons arg others)
    note argv = \<open>argv = script # rest\<close> Cons
    show thesis
    proof (cases "DatabaseReset_init cfg")
      case (Inl e)
      then show thesis
        using unconfigured [of script arg others e] argv by (simp add: run_head_def Let_def)
    next
      case (Inr url)
      let ?s = "\<lparr>has_conn = False, database_url = url, world = w\<rparr>"
      have "\<not> has_conn ?s" by simp
      then obtain b s1 ev1 r2 s2 ev2 where f:
        "connect D 3 (3 / 2) ?s = (Inr b, s1, ev1)"
        "has_conn s1 = b"
        "list_all talks_dial ev1"
        "length (filter is_connected ev1) = (if b then 1 else 0)"
        "list_ex is_connect ev1"
        "(if b then dispatch D (py_lower arg) s1 else (Inr (), s1, [])) = (r2, s2, ev2)"
        "has_conn s2 = b"
        "list_all talks_io ev2"
        "main_try D (py_lower arg) ?s =
           (outcome (close D s2), after (close D s2),
            ev1 @ ev2 @ general_error r2 @ events (close D s2))"
        by (rule main_try_run [of ?s D "py_lower arg"]) blast
      have "main D cfg argv w =
         (outcome (close D s2), world (after (close D s2)),
          run_head cfg @ ev1 @ ev2 @ general_error r2 @ events (close D s2))"
        using argv Inr f(9) by (simp add: run_head_def Let_def)
      then show thesis
        using connecting [of script arg others url b s1 ev1 r2 s2 ev2] argv Inr f by blast
    qed
  qed
qed

subsection \<open>Running the script in the simulated outside\<close>

text \<open>
  The simulated driver on the statements the script sends, and the equations that
  evaluate a run.
\<close>

lemma strip_prefix_append: "strip_prefix p (p @ s) = Some s"
  by (induction p) auto

lemma strip_suffix_append: "strip_suffix q (s @ q) = Some s"
  by (simp add: strip_suffix_def strip_prefix_append)

lemma truncate_target_truncate_sql: "truncate_target (truncate_sql t) = Some t"
  by (simp add: truncate_target_def truncate_sql_def strip_prefix_append strip_suffix_append)

lemma truncate_target_insert: "truncate_target insert_admin_sql = None"
  by (simp add: truncate_target_def insert_admin_sql_def truncate_head_def)

lemma select_all_not_catalog: "select_all t \<noteq> catalog_query"
  by (simp add: select_all_def catalog_query_def)

lemma sim_calls:
  "d_connect sim = sim_connect" "d_close sim = sim_close" "d_fetch sim = sim_fetch"
  "d_execute sim = sim_execute" "d_input sim = sim_input"
  "d_password_hash sim = sim_password_hash" "d_uuid4 sim = sim_uuid4"
  by (simp_all add: sim_def)

lemma sim_fetch_catalog:
  "sim_fetch catalog_query w = (Inr (map (\<lambda>t. [(''tablename'', VStr (fst t))]) (tables w)), w)"
  by (simp add: sim_fetch_def)

lemma sim_fetch_select:
  "sim_fetch (select_all t) w =
     (case map_of (tables w) t of None \<Rightarrow> (Inl no_relation, w) | Some rows \<Rightarrow> (Inr rows, w))"
  using strip_prefix_append [of "''SELECT * FROM ''" t]
  by (simp add: sim_fetch_def select_all_not_catalog) (simp add: select_all_def)

lemma sim_execute_truncate:
  "sim_execute (truncate_sql t) args w =
     (if t \<in> set (truncate_denied w) then (Some permission_denied, w)
      else if has_table w t then (None, w\<lparr>tables := empty_table t (tables w)\<rparr>)
      else (Some no_relation, w))"
  by (simp add: sim_execute_def truncate_target_truncate_sql)

lemma sim_execute_insert:
  "sim_execute insert_admin_sql args w =
     (if has_table w ''usuarios'' \<and> length args = length admin_columns
      then (None, w\<lparr>tables := add_row ''usuarios'' (zip admin_columns args) (tables w)\<rparr>)
      else (Some no_relation, w))"
  by (simp add: sim_execute_def truncate_target_insert)

lemma cfg_url_init: "DatabaseReset_init cfg_url = Inr ''postgresql://u:p@host/loja''"
  by (simp add: DatabaseReset_init_def cfg_url_def or_url_def normalize_url_def startswith_def)

lemma lower_names:
  "py_lower ''complete'' = ''complete''" "py_lower ''data'' = ''data''"
  "py_lower ''check'' = ''check''" "py_lower ''restore'' = ''restore''"
  by code_simp+

lemma connect_three: "connect D 3 d = connect_attempts D 3 d [1, 2, 3]"
  by (simp only: connect_def three_attempts)

lemma main_configured:
  "DatabaseReset_init cfg = Inr url \<Longrightarrow>
   main D cfg (script # arg # others) w =
     (case main_try D (py_lower arg) \<lparr>has_conn = False, database_url = url, world = w\<rparr> of
        (r, s, evs) \<Rightarrow> (r, world s, run_head cfg @ evs))"
  by (simp add: run_head_def Let_def)

lemma run_head_cfg_url: "run_head cfg_url = [Print MsgBanner, Print MsgRule]"
  by (simp add: run_head_def cfg_url_def)

lemmas script_defs =
  main_try_def main_body_def dispatch_def try_finally_def try_except_def bnd_def thn_def ret_def
  raise_def say_def says_def read_input_def conn_fetch_def conn_execute_def password_hash_def
  uuid4_def connect_three close_def confirm_action_def reset_complete_def reset_data_only_def
  backup_data_def truncate_all_tables_def create_admin_user_def Let_def
  connect_hints_def not_migration_def or_empty_def usage_def

lemmas sim_defs =
  sim_calls sim_connect_def sim_close_def sim_fetch_catalog sim_fetch_select sim_execute_truncate
  sim_execute_insert sim_input_def sim_password_hash_def sim_uuid4_def has_table_def
  empty_table_def add_row_def

lemmas string_defs =
  py_strip_def is_space_def code_def re_match_ident_def is_ident_start_def is_ident_char_def

subsection \<open>Counting events\<close>

lemma nonprints_append [simp]: "nonprints (xs @ ys) = nonprints xs @ nonprints ys"
  by (simp add: nonprints_def)

lemma dial_is_not:
  "talks_dial e \<Longrightarrow> \<not> is_close e" "talks_dial e \<Longrightarrow> \<not> is_sql e" "talks_dial e \<Longrightarrow> \<not> is_input e"
  "talks_dial e \<Longrightarrow> \<not> mismatch e"
  by (cases e; simp)+

lemma io_is_not:
  "talks_io e \<Longrightarrow> \<not> is_close e" "talks_io e \<Longrightarrow> \<not> is_connected e" "talks_io e \<Longrightarrow> \<not> is_connect e"
  by (cases e; simp add: talks_io_def)+

lemma close_counts:
  "length (filter is_close (events (close D s))) = (if has_conn s then 1 else 0)"
  "filter is_connected (events (close D s)) = []"
  "filter is_sql (events (close D s)) = []"
  "filter is_input (events (close D s)) = []"
  by (simp_all add: close_def split: prod.splits option.splits)

subsection \<open>Lower case\<close>

lemma lower_char_idem: "lower_char (lower_char c) = lower_char c"
  by (simp add: lower_char_def code_def)

lemma py_lower_idem: "py_lower (py_lower s) = py_lower s"
  by (simp add: py_lower_def lower_char_idem)

lemma lower_upper_names:
  "py_lower ''CHECK'' = ''check''" "py_lower ''Complete'' = ''complete''"
  "py_lower ''DATA'' = ''data''"
  by code_simp+

subsection \<open>The confirmation\<close>

text \<open>
  What \<open>confirm_action\<close> returns, and that SQL statements are only sent after it has
  printed its confirmation.
\<close>

lemma confirm_action_result:
  "outcome (confirm_action D n s) = Inr True
     \<longleftrightarrow> answered (fst (d_input D (world s))) ''CONFIRMO''
         \<and> answered (fst (d_input D (snd (d_input D (world s))))) ''SIM''"
  by (auto simp: confirm_action_def answered_def bnd_def thn_def says_def say_def ret_def
        read_input_def split: prod.splits sum.splits if_splits)

lemma confirm_action_mismatch:
  "gate_mismatch (events (confirm_action D n s)) = (outcome (confirm_action D n s) = Inr False)"
  by (auto simp: confirm_action_def gate_mismatch_def bnd_def thn_def says_def say_def ret_def
        read_input_def split: prod.splits sum.splits if_splits)

lemma confirm_action_confirmed:
  "(Print MsgConfirmed \<in> set (events (confirm_action D n s)))
     = (outcome (confirm_action D n s) = Inr True)"
  by (auto simp: confirm_action_def bnd_def thn_def says_def say_def ret_def
        read_input_def split: prod.splits sum.splits if_splits)

lemma input_is_not: "talks_input e \<Longrightarrow> \<not> is_sql e"
  by (cases e) (simp_all add: talks_input_def)

lemma sql_is_not: "talks_sql e \<Longrightarrow> \<not> mismatch e" "talks_sql e \<Longrightarrow> \<not> is_input e"
  by (cases e; simp add: talks_sql_def)+

lemma confirm_action_no_sql: "filter is_sql (events (confirm_action D n s)) = []"
  by (rule filter_none [OF keepsD(2) [OF keeps_confirm_action]]) (rule input_is_not)

lemma gated_sql:
  assumes m: "keeps talks_sql m"
    and sql: "filter is_sql (events (bnd (confirm_action D n) (\<lambda>c. if c then m else ret ()) s)) \<noteq> []"
  shows "Print MsgConfirmed \<in> set (events (bnd (confirm_action D n) (\<lambda>c. if c then m else ret ()) s))
     \<and> \<not> gate_mismatch (events (bnd (confirm_action D n) (\<lambda>c. if c then m else ret ()) s))"
proof -
  obtain r s1 ev1 where c: "confirm_action D n s = (r, s1, ev1)"
    by (cases "confirm_action D n s") auto
  have nosql: "filter is_sql ev1 = []"
    using confirm_action_no_sql [of D n s] c by simp
  have r: "r = Inr True"
  proof (rule ccontr)
    assume "r \<noteq> Inr True"
    then have "events (bnd (confirm_action D n) (\<lambda>c. if c then m else ret ()) s) = ev1"
      using c by (cases r) (auto simp: bnd_def ret_def)
    then show False using sql nosql by simp
  qed
  obtain r2 s2 ev2 where m2: "m s1 = (r2, s2, ev2)"
    by (cases "m s1") auto
  have ev: "events (bnd (confirm_action D n) (\<lambda>c. if c then m else ret ()) s) = ev1 @ ev2"
    using c r m2 by (simp add: bnd_def)
  have "list_all talks_sql ev2"
    using keepsD(2) [OF m, of s1] m2 by simp
  then have "\<not> list_ex mismatch ev2"
    by (auto simp: list_all_iff list_ex_iff sql_is_not)
  moreover have "\<not> list_ex mismatch ev1"
    using confirm_action_mismatch [of D n s] c r by (simp add: gate_mismatch_def)
  moreover have "Print MsgConfirmed \<in> set ev1"
    using confirm_action_confirmed [of D n s] c r by simp
  ultimately show ?thesis
    unfolding ev by (simp add: gate_mismatch_def)
qed

lemma dispatch_sql:
  assumes "filter is_sql (events (dispatch D a s)) \<noteq> []"
  shows "Print MsgConfirmed \<in> set (events (dispatch D a s))
     \<and> \<not> gate_mismatch (events (dispatch D a s))"
proof -
  consider "a = ''check''" | "a \<noteq> ''check''" "a = ''complete''"
    | "a \<noteq> ''check''" "a \<noteq> ''complete''" "a = ''data''"
    | "a \<noteq> ''check''" "a \<noteq> ''complete''" "a \<noteq> ''data''"
    by blast
  then show ?thesis
  proof cases
    case 1
    then show ?thesis using assms by (simp add: dispatch_def say_def says_def)
  next
    case 2
    then show ?thesis
      using assms gated_sql [where m = "reset_complete D" and D = D and s = s, OF keeps_reset_complete]
      by (simp add: dispatch_def)
  next
    case 3
    then show ?thesis
      using assms gated_sql [where m = "reset_data_only D" and D = D and s = s, OF keeps_reset_data_only]
      by (simp add: dispatch_def)
  next
    case 4
    then show ?thesis using assms by (simp add: dispatch_def say_def says_def)
  qed
qed

subsection \<open>Where the events of a run come from\<close>

lemma takeWhile_all: "list_all P xs \<Longrightarrow> takeWhile P (xs @ ys) = xs @ takeWhile P ys"
  by (simp add: list_all_iff)

lemma list_ex_length: "list_ex P xs = (length (filter P xs) \<noteq> 0)"
  by (simp add: list_ex_iff filter_empty_conv)

lemma dial_prints: "list_all talks_dial evs \<Longrightarrow> Print m \<in> set evs \<Longrightarrow> connect_msg m"
  by (auto simp: list_all_iff)

lemma close_prints: "Print m \<in> set (events (close D s)) \<Longrightarrow> m = MsgClosed"
  by (auto simp: close_def split: prod.splits option.splits if_splits)

lemma head_prints:
  "Print m \<in> set (run_head cfg) \<Longrightarrow> m = MsgBanner \<or> m = MsgRule \<or> m = MsgNoDotenv"
  by (auto simp: run_head_def split: if_splits)

lemma head_counts:
  "filter is_sql (run_head cfg) = []" "filter is_input (run_head cfg) = []"
  "filter is_close (run_head cfg) = []" "filter is_connected (run_head cfg) = []"
  "\<not> list_ex mismatch (run_head cfg)"
  by (simp_all add: run_head_def)

lemma general_error_counts:
  "filter is_sql (general_error r) = []" "filter is_input (general_error r) = []"
  "filter is_close (general_error r) = []" "filter is_connected (general_error r) = []"
  "\<not> list_ex mismatch (general_error r)"
  by (simp_all add: general_error_def split: sum.splits)

lemma close_no_mismatch: "\<not> list_ex mismatch (events (close D s))"
  by (simp add: close_def split: prod.splits option.splits)

lemma dial_counts:
  assumes "list_all talks_dial evs"
  shows "filter is_sql evs = []" "filter is_input evs = []" "filter is_close evs = []"
    "\<not> list_ex mismatch evs"
  using assms by (auto simp: list_all_iff list_ex_iff filter_empty_conv dial_is_not)

lemma io_counts:
  assumes "list_all talks_io evs"
  shows "filter is_close evs = []" "filter is_connected evs = []"
  using assms by (auto simp: list_all_iff filter_empty_conv io_is_not)

subsection \<open>The workflows step by step\<close>

lemma reset_complete_steps:
  "nonprints (events (reset_complete D s)) = nonprints (events (steps D s))
   \<and> outcome (reset_complete D s) = outcome (steps D s)
   \<and> after (reset_complete D s) = after (steps D s)"
  by (auto simp: reset_complete_def steps_def thn_def bnd_def try_except_def says_def say_def
        raise_def nonprints_def split: prod.splits sum.splits)

lemma reset_data_only_steps:
  "nonprints (events (reset_data_only D s)) = nonprints (events (steps D s))
   \<and> outcome (reset_data_only D s) = outcome (steps D s)
   \<and> after (reset_data_only D s) = after (steps D s)"
  by (auto simp: reset_data_only_def steps_def thn_def bnd_def try_except_def says_def say_def
        raise_def nonprints_def split: prod.splits sum.splits)

lemma confirm_action_name:
  "nonprints (events (confirm_action D n s)) = nonprints (events (confirm_action D n' s))
   \<and> outcome (confirm_action D n s) = outcome (confirm_action D n' s)
   \<and> after (confirm_action D n s) = after (confirm_action D n' s)"
  by (auto simp: confirm_action_def thn_def bnd_def says_def say_def ret_def read_input_def
        nonprints_def split: prod.splits sum.splits)

lemma dispatch_same:
  "nonprints (events (dispatch D ''complete'' s)) = nonprints (events (dispatch D ''data'' s))
   \<and> outcome (dispatch D ''complete'' s) = outcome (dispatch D ''data'' s)
   \<and> after (dispatch D ''complete'' s) = after (dispatch D ''data'' s)"
proof -
  let ?n = "''fazer RESET COMPLETO do banco''" and ?n' = "''LIMPAR TODOS OS DADOS do banco''"
  obtain r s1 ev1 where c: "confirm_action D ?n s = (r, s1, ev1)"
    by (cases "confirm_action D ?n s") auto
  obtain ev1' where c': "confirm_action D ?n' s = (r, s1, ev1')" "nonprints ev1' = nonprints ev1"
    using confirm_action_name [of D ?n' s ?n] c by (cases "confirm_action D ?n' s") auto
  obtain r2 s2 ev2 where m: "reset_complete D s1 = (r2, s2, ev2)"
    by (cases "reset_complete D s1") auto
  obtain ev2' where m': "reset_data_only D s1 = (r2, s2, ev2')" "nonprints ev2' = nonprints ev2"
    using reset_complete_steps [of D s1] reset_data_only_steps [of D s1] m
    by (cases "reset_data_only D s1") auto
  show ?thesis
  proof (cases r)
    case (Inl e)
    then show ?thesis using c c' by (simp add: dispatch_def bnd_def)
  next
    case (Inr b)
    then show ?thesis using c c' m m' by (cases b) (simp_all add: dispatch_def bnd_def ret_def)
  qed
qed

lemma main_try_same:
  "nonprints (events (main_try D ''complete'' s)) = nonprints (events (main_try D ''data'' s))
   \<and> outcome (main_try D ''complete'' s) = outcome (main_try D ''data'' s)
   \<and> after (main_try D ''complete'' s) = after (main_try D ''data'' s)"
proof -
  obtain rb s1 ev1 where c: "connect D 3 (3 / 2) s = (rb, s1, ev1)"
    by (cases "connect D 3 (3 / 2) s") auto
  obtain r2 s2 ev2 where d: "dispatch D ''complete'' s1 = (r2, s2, ev2)"
    by (cases "dispatch D ''complete'' s1") auto
  obtain ev2' where d': "dispatch D ''data'' s1 = (r2, s2, ev2')" "nonprints ev2' = nonprints ev2"
    using dispatch_same [of D s1] d by (cases "dispatch D ''data'' s1") auto
  obtain rc s3 ev3 where cl: "close D s2 = (rc, s3, ev3)"
    by (cases "close D s2") auto
  obtain rc1 s4 ev4 where cl1: "close D s1 = (rc1, s4, ev4)"
    by (cases "close D s1") auto
  show ?thesis
  proof (cases rb)
    case (Inl e)
    then show ?thesis
      using c cl1
      by (cases rc1) (simp_all add: main_try_def main_body_def try_finally_def try_except_def
          bnd_def say_def says_def)
  next
    case (Inr b)
    show ?thesis
    proof (cases b)
      case False
      then show ?thesis
        using c Inr cl1
        by (cases rc1) (simp_all add: main_try_def main_body_def try_finally_def try_except_def
            bnd_def ret_def)
    next
      case True
      then show ?thesis
        using c Inr d d' cl
        by (cases rc; cases r2) (simp_all add: main_try_def main_body_def try_finally_def
            try_except_def bnd_def say_def says_def nonprints_def)
    qed
  qed
qed

subsection \<open>The backup\<close>

lemma backup_data_returns:
  "\<exists>b. outcome (backup_data D s) = Inr b
       \<and> map fst b = (if list_ex fetch_failed (events (backup_data D s)) \<or> \<not> has_conn s
                      then [] else backup_tables)"
  by (auto simp: backup_data_def backup_tables_def thn_def bnd_def try_except_def say_def says_def
        ret_def conn_fetch_def split: prod.splits sum.splits)

lemma backup_data_fetches:
  "map statement (filter is_sql (events (backup_data D s)))
     = take (length (filter is_sql (events (backup_data D s)))) (map select_all backup_tables)
   \<and> \<not> list_ex fetch_failed (butlast (filter is_sql (events (backup_data D s))))"
  by (auto simp: backup_data_def backup_tables_def thn_def bnd_def try_except_def say_def says_def
        ret_def conn_fetch_def split: prod.splits sum.splits)

lemma conn_fetch_cases:
  assumes "has_conn s"
  obtains (raised) e w where
      "d_fetch D q (world s) = (Inl e, w)"
      "conn_fetch D q s = (Inl e, s\<lparr>world := w\<rparr>, [EvFetch q (Some e)])"
  | (returned) rows w where
      "d_fetch D q (world s) = (Inr rows, w)"
      "conn_fetch D q s = (Inr rows, s\<lparr>world := w\<rparr>, [EvFetch q None])"
proof (cases "d_fetch D q (world s)")
  case (Pair r w)
  show thesis
  proof (cases r)
    case (Inl e)
    then show thesis using Pair assms raised by (simp add: conn_fetch_def)
  next
    case (Inr rows)
    then show thesis using Pair assms returned by (simp add: conn_fetch_def)
  qed
qed

lemmas backup_unfold =
  backup_data_def backup_tables_def thn_def bnd_def try_except_def say_def says_def ret_def
  fetched_def

lemma backup_data_fetch_each:
  assumes live: "has_conn s"
  shows "outcome (backup_data D s)
       = Inr (case outcome (fetch_each D backup_tables (world s)) of Inl e \<Rightarrow> [] | Inr b \<Rightarrow> b)
     \<and> world (after (backup_data D s)) = after (fetch_each D backup_tables (world s))
     \<and> filter is_sql (events (backup_data D s)) = events (fetch_each D backup_tables (world s))
     \<and> (\<forall>e. outcome (fetch_each D backup_tables (world s)) = Inl e
            \<longrightarrow> last (events (backup_data D s)) = Print (MsgBackupError (exn_msg e)))
     \<and> (\<not> list_ex fetch_failed (events (backup_data D s))
          \<longrightarrow> fetched (events (backup_data D s)) = map select_all backup_tables)"
  using live
proof (cases rule: conn_fetch_cases [of s D "select_all ''usuarios''"])
  case (raised e w)
  then show ?thesis by (simp add: backup_unfold)
next
  case r1: (returned rows1 w1)
  have "has_conn (s\<lparr>world := w1\<rparr>)" using live by simp
  then show ?thesis
  proof (cases rule: conn_fetch_cases [of "s\<lparr>world := w1\<rparr>" D "select_all ''produtos''"])
    case (raised e w)
    then show ?thesis using r1 by (simp add: backup_unfold)
  next
    case r2: (returned rows2 w2)
    have "has_conn (s\<lparr>world := w2\<rparr>)" using live by simp
    then show ?thesis
    proof (cases rule: conn_fetch_cases [of "s\<lparr>world := w2\<rparr>" D "select_all ''clientes''"])
      case (raised e w)
      then show ?thesis using r1 r2 by (simp add: backup_unfold)
    next
      case r3: (returned rows3 w3)
      have "has_conn (s\<lparr>world := w3\<rparr>)" using live by simp
      then show ?thesis
      proof (cases rule: conn_fetch_cases [of "s\<lparr>world := w3\<rparr>" D "select_all ''vendas''"])
        case (raised e w)
        then show ?thesis using r1 r2 r3 by (simp add: backup_unfold)
      next
        case r4: (returned rows4 w4)
        then show ?thesis using r1 r2 r3 by (simp add: backup_unfold)
      qed
    qed
  qed
qed

lemma backup_data_offline:
  assumes "\<not> has_conn s"
  shows "backup_data D s
     = (Inr [], s, [Print MsgBackupStart, Print (MsgBackupError (exn_msg no_conn_error))])"
  using assms
  by (simp add: backup_data_def thn_def bnd_def try_except_def say_def says_def ret_def
        conn_fetch_def)

lemma backup_shop:
  "backup_data sim (live shop) =
     (Inr [(''usuarios'', [old_user]), (''produtos'', []), (''clientes'', []), (''vendas'', [])],
      live shop,
      [Print MsgBackupStart,
       EvFetch (select_all ''usuarios'') None, Print (MsgSaved ''usuarios'' 1),
       EvFetch (select_all ''produtos'') None, Print (MsgSaved ''produtos'' 0),
       EvFetch (select_all ''clientes'') None, Print (MsgSaved ''clientes'' 0),
       EvFetch (select_all ''vendas'') None, Print (MsgSaved ''vendas'' 0)])"
  by (simp add: script_defs sim_defs live_def shop_def)

subsection \<open>The truncation loop\<close>

lemma executed_simps [simp]:
  "executed [] = []" "executed (xs @ ys) = executed xs @ executed ys"
  "executed (Print m # xs) = executed xs"
  "executed (EvExecute q a r # xs) = q # executed xs"
  "executed (EvFetch q r # xs) = executed xs"
  by (simp_all add: executed_def)

lemma fetched_simps [simp]:
  "fetched [] = []" "fetched (xs @ ys) = fetched xs @ fetched ys"
  "fetched (Print m # xs) = fetched xs"
  "fetched (EvExecute q a r # xs) = fetched xs"
  "fetched (EvFetch q r # xs) = q # fetched xs"
  by (simp_all add: fetched_def)

lemma or_empty_str: "match_subject (or_empty (VStr n)) = Inr n"
  by (simp add: or_empty_def)

lemma conn_execute_live:
  assumes "has_conn s"
  shows "has_conn (after (conn_execute D q a s))"
    "executed (events (conn_execute D q a s)) = [q]"
    "fetched (events (conn_execute D q a s)) = []"
  using assms by (simp_all add: conn_execute_def split: prod.splits option.splits)

lemma truncate_loop_statements:
  assumes "has_conn s"
  shows "executed (events (truncate_loop D (map VStr ns) s))
       = take (length (executed (events (truncate_loop D (map VStr ns) s))))
           (map truncate_sql (filter re_match_ident ns))
     \<and> (outcome (truncate_loop D (map VStr ns) s) = Inr ()
          \<longrightarrow> executed (events (truncate_loop D (map VStr ns) s))
              = map truncate_sql (filter re_match_ident ns))
     \<and> fetched (events (truncate_loop D (map VStr ns) s)) = []"
  using assms
proof (induction ns arbitrary: s)
  case Nil
  show ?case by simp
next
  case (Cons n ns)
  show ?case
  proof (cases "re_match_ident n")
    case False
    then show ?thesis using Cons.IH [OF Cons.prems] by (simp add: or_empty_str)
  next
    case True
    obtain r1 s1 ev1 where c: "conn_execute D (truncate_sql n) [] s = (r1, s1, ev1)"
      by (cases "conn_execute D (truncate_sql n) [] s") auto
    have l: "has_conn s1" "executed ev1 = [truncate_sql n]" "fetched ev1 = []"
      using conn_execute_live [OF Cons.prems, of D "truncate_sql n" "[]"] c by simp_all
    show ?thesis
    proof (cases r1)
      case (Inl e)
      then show ?thesis using True c l by (simp add: or_empty_str)
    next
      case (Inr u)
      obtain r2 s2 ev2 where t: "truncate_loop D (map VStr ns) s1 = (r2, s2, ev2)"
        by (cases "truncate_loop D (map VStr ns) s1") auto
      show ?thesis
        using True c l Inr t Cons.IH [OF l(1)] by (simp add: or_empty_str)
    qed
  qed
qed

lemma conn_execute_cases:
  assumes "has_conn s"
  obtains (raised) e s1 where
      "conn_execute D q a s = (Inl e, s1, [EvExecute q a (Some e)])" "has_conn s1"
  | (returned) s1 where
      "conn_execute D q a s = (Inr (), s1, [EvExecute q a None])" "has_conn s1"
proof (cases "d_execute D q a (world s)")
  case (Pair r w)
  show thesis
  proof (cases r)
    case None
    then show thesis using Pair assms returned by (simp add: conn_execute_def)
  next
    case (Some e)
    then show thesis using Pair assms raised by (simp add: conn_execute_def)
  qed
qed

text \<open>A statement of the loop that fails is the last one it executes, and its exception is
  the loop's.\<close>

lemma truncate_loop_failures:
  assumes "has_conn s"
  shows "\<not> list_ex execute_failed (butlast (filter is_execute (events (truncate_loop D (map VStr ns) s))))
     \<and> (outcome (truncate_loop D (map VStr ns) s) = Inr ())
         = (\<not> list_ex execute_failed (events (truncate_loop D (map VStr ns) s)))
     \<and> (\<forall>e. outcome (truncate_loop D (map VStr ns) s) = Inl e
            \<longrightarrow> filter is_execute (events (truncate_loop D (map VStr ns) s)) \<noteq> []
                \<and> failure (last (filter is_execute (events (truncate_loop D (map VStr ns) s))))
                    = Some e)"
  using assms
proof (induction ns arbitrary: s)
  case Nil
  show ?case by simp
next
  case (Cons n ns)
  show ?case
  proof (cases "re_match_ident n")
    case False
    then show ?thesis using Cons.IH [OF Cons.prems] by (simp add: or_empty_str)
  next
    case True
    from Cons.prems show ?thesis
    proof (cases rule: conn_execute_cases [of s D "truncate_sql n" "[]"])
      case (raised e s1)
      then show ?thesis using True by (simp add: or_empty_str)
    next
      case (returned s1)
      obtain r2 s2 ev2 where t: "truncate_loop D (map VStr ns) s1 = (r2, s2, ev2)"
        by (cases "truncate_loop D (map VStr ns) s1") auto
      have ih: "\<not> list_ex execute_failed (butlast (filter is_execute ev2))"
          "(r2 = Inr ()) = (\<not> list_ex execute_failed ev2)"
          "\<forall>e. r2 = Inl e \<longrightarrow> filter is_execute ev2 \<noteq> []
              \<and> failure (last (filter is_execute ev2)) = Some e"
        using Cons.IH [OF returned(2)] t by simp_all
      have run: "truncate_loop D (map VStr (n # ns)) s
          = (r2, s2, EvExecute (truncate_sql n) [] None # Print (MsgTruncOk n) # ev2)"
        using True returned(1) t by (simp add: or_empty_str)
      show ?thesis
        unfolding run using ih by auto
    qed
  qed
qed

lemma not_migration_names:
  "filter not_migration (map VStr ns) = map VStr (filter (\<lambda>n. n \<noteq> ''alembic_version'') ns)"
  by (induction ns) (simp_all add: not_migration_def)

lemma truncate_all_statements:
  assumes live: "has_conn s"
    and cat: "fst (d_fetch D catalog_query (world s)) = Inr rows"
    and names: "tablenames rows = Inr (map VStr ns)"
  shows "executed (events (truncate_all_tables D s))
       = take (length (executed (events (truncate_all_tables D s))))
           (map truncate_sql (truncated_names ns))
     \<and> (outcome (truncate_all_tables D s) = Inr ()
          \<longrightarrow> executed (events (truncate_all_tables D s)) = map truncate_sql (truncated_names ns))
     \<and> fetched (events (truncate_all_tables D s)) = [catalog_query]"
proof -
  obtain w1 where f: "d_fetch D catalog_query (world s) = (Inr rows, w1)"
    using cat by (cases "d_fetch D catalog_query (world s)") auto
  let ?s1 = "s\<lparr>world := w1\<rparr>"
  have cf: "conn_fetch D catalog_query s = (Inr rows, ?s1, [EvFetch catalog_query None])"
    using live f by (simp add: conn_fetch_def)
  show ?thesis
  proof (cases "ns = []")
    case True
    then show ?thesis
      using cf names
      by (simp add: truncate_all_tables_def truncated_names_def thn_def bnd_def try_except_def
          say_def says_def ret_def)
  next
    case False
    let ?ms = "filter (\<lambda>n. n \<noteq> ''alembic_version'') ns"
    obtain r2 s2 ev2 where t: "truncate_loop D (map VStr ?ms) ?s1 = (r2, s2, ev2)"
      by (cases "truncate_loop D (map VStr ?ms) ?s1") auto
    have "has_conn ?s1" using live by simp
    note l = truncate_loop_statements [OF this, of D ?ms]
    show ?thesis
      using cf names False t l
      by (cases r2) (simp_all add: truncate_all_tables_def truncated_names_def thn_def bnd_def
          try_except_def say_def says_def ret_def raise_def not_migration_names)
  qed
qed

lemma truncate_all_failures:
  assumes live: "has_conn s"
    and cat: "fst (d_fetch D catalog_query (world s)) = Inr rows"
    and names: "tablenames rows = Inr (map VStr ns)"
  shows "\<not> list_ex execute_failed (butlast (filter is_execute (events (truncate_all_tables D s))))
     \<and> (outcome (truncate_all_tables D s) = Inr ())
         = (\<not> list_ex execute_failed (events (truncate_all_tables D s)))
     \<and> (\<forall>e. outcome (truncate_all_tables D s) = Inl e
            \<longrightarrow> filter is_execute (events (truncate_all_tables D s)) \<noteq> []
                \<and> failure (last (filter is_execute (events (truncate_all_tables D s)))) = Some e)"
proof -
  obtain w1 where f: "d_fetch D catalog_query (world s) = (Inr rows, w1)"
    using cat by (cases "d_fetch D catalog_query (world s)") auto
  let ?s1 = "s\<lparr>world := w1\<rparr>"
  have cf: "conn_fetch D catalog_query s = (Inr rows, ?s1, [EvFetch catalog_query None])"
    using live f by (simp add: conn_fetch_def)
  show ?thesis
  proof (cases "ns = []")
    case True
    then show ?thesis
      using cf names
      by (simp add: truncate_all_tables_def thn_def bnd_def try_except_def say_def says_def ret_def)
  next
    case False
    let ?ms = "filter (\<lambda>n. n \<noteq> ''alembic_version'') ns"
    obtain r2 s2 ev2 where t: "truncate_loop D (map VStr ?ms) ?s1 = (r2, s2, ev2)"
      by (cases "truncate_loop D (map VStr ?ms) ?s1") auto
    have "has_conn ?s1" using live by simp
    note l = truncate_loop_failures [OF this, of D ?ms]
    show ?thesis
      using cf names False t l
      by (cases r2) (simp_all add: truncate_all_tables_def thn_def bnd_def try_except_def say_def
          says_def ret_def raise_def not_migration_names)
  qed
qed

subsection \<open>What the pattern accepts\<close>

text \<open>
  A letter or an underscore, then letters, digits and underscores, and then the end of
  the string or one newline that ends it.
\<close>

lemma newline_no_ident_char: "\<not> is_ident_char (CHR 0x0A)"
  by (simp add: is_ident_char_def is_ident_start_def code_def)

lemma dropWhile_newline:
  "dropWhile is_ident_char cs = [CHR 0x0A]
     \<longleftrightarrow> (\<exists>pre. cs = pre @ [CHR 0x0A] \<and> list_all is_ident_char pre)"
proof
  assume a: "dropWhile is_ident_char cs = [CHR 0x0A]"
  have "cs = takeWhile is_ident_char cs @ dropWhile is_ident_char cs"
    by simp
  then have "cs = takeWhile is_ident_char cs @ [CHR 0x0A]"
    using a by simp
  moreover have "list_all is_ident_char (takeWhile is_ident_char cs)"
    by (auto simp: list_all_iff dest: set_takeWhileD)
  ultimately show "\<exists>pre. cs = pre @ [CHR 0x0A] \<and> list_all is_ident_char pre"
    by blast
next
  assume "\<exists>pre. cs = pre @ [CHR 0x0A] \<and> list_all is_ident_char pre"
  then obtain pre where "cs = pre @ [CHR 0x0A]" "list_all is_ident_char pre"
    by blast
  then show "dropWhile is_ident_char cs = [CHR 0x0A]"
    using newline_no_ident_char by (simp add: list_all_iff dropWhile_append1 dropWhile_append2)
qed

lemma re_match_ident_iff:
  "re_match_ident s \<longleftrightarrow>
     (\<exists>c cs. (s = c # cs \<or> s = c # cs @ [CHR 0x0A])
        \<and> is_ident_start c \<and> list_all is_ident_char cs)"
proof (cases s)
  case Nil
  then show ?thesis by (simp add: re_match_ident_def)
next
  case (Cons c cs)
  have "dropWhile is_ident_char cs = [] \<longleftrightarrow> list_all is_ident_char cs"
    by (simp add: dropWhile_eq_Nil_conv list_all_iff)
  then show ?thesis
    using Cons dropWhile_newline [of cs] by (auto simp: re_match_ident_def)
qed

subsection \<open>The catalog of the shop\<close>

lemma catalog_shop:
  "fst (d_fetch sim catalog_query (world (live shop)))
     = Inr (map (\<lambda>t. [(''tablename'', VStr (fst t))]) (tables shop))"
  by (simp add: sim_calls sim_fetch_catalog live_def)

lemma tablenames_shop:
  "tablenames (map (\<lambda>t. [(''tablename'', VStr (fst t))]) (tables shop))
     = Inr (map VStr [''usuarios'', ''produtos'', ''clientes'', ''vendas'', ''itens_venda'',
                     ''alembic_version''])"
  by (simp add: shop_def)

lemma truncated_names_shop:
  "truncated_names [''usuarios'', ''produtos'', ''clientes'', ''vendas'', ''itens_venda'',
                    ''alembic_version'']
     = [''usuarios'', ''produtos'', ''clientes'', ''vendas'', ''itens_venda'']"
  by (simp add: truncated_names_def string_defs)

lemma truncate_shop_returns: "outcome (truncate_all_tables sim (live shop)) = Inr ()"
  by (simp add: script_defs sim_defs string_defs live_def shop_def)

subsection \<open>The simulated tables through a workflow\<close>






















section \<open>A refused confirmation\<close>

lemma run_complete_refused:
  "events (main sim cfg_url (argv_of ''complete'') shop_refused) =
     [Print MsgBanner, Print MsgRule,
      EvConnect ''postgresql://u:p@host/loja'' None, Print MsgConnected,
      Print (MsgWarnAbout ''fazer RESET COMPLETO do banco''), Print MsgWarnErase,
      Print MsgWarnTarget,
      EvInput PromptConfirmo (Inr ''CONFIRMO''), EvInput PromptSim (Inr ''nao''),
      Print MsgCancelled, EvClose None, Print MsgClosed]"
  by (simp add: argv_of_def main_configured [OF cfg_url_init] run_head_cfg_url lower_names
        script_defs sim_defs string_defs shop_refused_def shop_def
      del: main.simps)

lemma run_data_lowercase:
  "events (main sim cfg_url (argv_of ''data'') shop_lowercase) =
     [Print MsgBanner, Print MsgRule,
      EvConnect ''postgresql://u:p@host/loja'' None, Print MsgConnected,
      Print (MsgWarnAbout ''LIMPAR TODOS OS DADOS do banco''), Print MsgWarnErase,
      Print MsgWarnTarget,
      EvInput PromptConfirmo (Inr ''confirmo''),
      Print MsgCancelled, EvClose None, Print MsgClosed]"
  by (simp add: argv_of_def main_configured [OF cfg_url_init] run_head_cfg_url lower_names
        script_defs sim_defs string_defs shop_lowercase_def shop_def
      del: main.simps)

text \<open>
  C1, as the code has it. \<open>main\<close> connects before it calls \<open>confirm_action\<close>. When an
  answer at either prompt does not match, the run issues no SQL statement at all (no fetch
  and no execute, so no TRUNCATE, DROP or INSERT); it has established its connection, once,
  before it read the first answer, and it closes it, once, as the last thing it does but
  print.
\<close>

theorem mismatch_issues_no_sql:
  assumes "gate_mismatch (events (main D cfg argv w))"
  shows "filter is_sql (events (main D cfg argv w)) = []
     \<and> length (filter is_connected (events (main D cfg argv w))) = 1
     \<and> length (filter is_close (events (main D cfg argv w))) = 1
     \<and> list_ex is_connected (takeWhile (\<lambda>e. \<not> is_input e) (events (main D cfg argv w)))
     \<and> is_close (last (nonprints (events (main D cfg argv w))))"
proof (cases rule: main_runs [of D cfg argv w])
  case usage
  then show ?thesis using assms by (simp add: usage_def gate_mismatch_def)
next
  case (unconfigured script arg others e)
  then show ?thesis using assms head_counts [of cfg] by (simp add: gate_mismatch_def)
next
  case (connecting script arg others url b s1 ev1 r2 s2 ev2)
  let ?evs = "run_head cfg @ ev1 @ ev2 @ general_error r2 @ events (close D s2)"
  have evs: "events (main D cfg argv w) = ?evs"
    using connecting(11) by simp
  note d = dial_counts [OF connecting(5)]
  note i = io_counts [OF connecting(10)]
  have mis: "gate_mismatch ev2"
    using assms head_counts [of cfg] d general_error_counts [of r2] close_no_mismatch [of D s2]
    unfolding evs by (simp add: gate_mismatch_def)
  then have b: "b"
    using connecting(8) by (auto simp: gate_mismatch_def split: if_splits)
  then have ev2: "ev2 = events (dispatch D (py_lower arg) s1)"
    using connecting(8) by simp
  have "filter is_sql ev2 = []"
    using dispatch_sql [of D "py_lower arg" s1] mis unfolding ev2 by blast
  then have counts: "filter is_sql ?evs = []"
      "length (filter is_connected ?evs) = 1" "length (filter is_close ?evs) = 1"
    using b head_counts [of cfg] d i general_error_counts [of r2] close_counts [of D s2]
      connecting(6,9)
    by simp_all
  have quiet: "list_all (\<lambda>e. \<not> is_input e) (run_head cfg)" "list_all (\<lambda>e. \<not> is_input e) ev1"
    using head_counts(2) [of cfg] d(2) by (auto simp: list_all_iff filter_empty_conv)
  have "takeWhile (\<lambda>e. \<not> is_input e) ?evs
      = run_head cfg @ ev1
        @ takeWhile (\<lambda>e. \<not> is_input e) (ev2 @ general_error r2 @ events (close D s2))"
    by (simp add: takeWhile_all quiet)
  moreover have "list_ex is_connected ev1"
    using connecting(6) b by (simp only: list_ex_length) simp
  ultimately have before: "list_ex is_connected (takeWhile (\<lambda>e. \<not> is_input e) ?evs)"
    by simp
  have "is_close (last (nonprints ?evs))"
    using b connecting(9) close_nonprints [of D s2] by (simp add: nonprints_def)
  then show ?thesis
    unfolding evs using counts before by simp
qed

theorem mismatch_issues_no_sql_witness:
  "gate_mismatch (events (main sim cfg_url (argv_of ''complete'') shop_refused))
   \<and> filter is_sql (events (main sim cfg_url (argv_of ''complete'') shop_refused)) = []
   \<and> length (filter is_connected (events (main sim cfg_url (argv_of ''complete'') shop_refused))) = 1
   \<and> length (filter is_close (events (main sim cfg_url (argv_of ''complete'') shop_refused))) = 1"
proof -
  have "gate_mismatch (events (main sim cfg_url (argv_of ''complete'') shop_refused))"
    by (simp add: run_complete_refused gate_mismatch_def string_defs)
  then show ?thesis
    using mismatch_issues_no_sql [of sim cfg_url "argv_of ''complete''" shop_refused] by blast
qed

text \<open>
  As stated, C1 fails: the run below is refused at the first prompt and has already called
  \<open>asyncpg.connect\<close>.
\<close>

theorem connect_precedes_gate_counterexample:
  "events (main sim cfg_url (argv_of ''data'') shop_lowercase) =
     [Print MsgBanner, Print MsgRule,
      EvConnect ''postgresql://u:p@host/loja'' None, Print MsgConnected,
      Print (MsgWarnAbout ''LIMPAR TODOS OS DADOS do banco''), Print MsgWarnErase,
      Print MsgWarnTarget,
      EvInput PromptConfirmo (Inr ''confirmo''),
      Print MsgCancelled, EvClose None, Print MsgClosed]"
  by (rule run_data_lowercase)

section \<open>The seeded administrator\<close>






section \<open>Truncating every table\<close>

lemma catalog_shop_denied:
  "fst (d_fetch sim catalog_query (world (live shop_denied)))
     = Inr (map (\<lambda>t. [(''tablename'', VStr (fst t))]) (tables shop))"
  by (simp add: sim_calls sim_fetch_catalog live_def shop_denied_def)

lemma truncate_shop_denied:
  "truncate_all_tables sim (live shop_denied) =
     (Inl permission_denied,
      live (shop_denied\<lparr>tables := empty_table ''usuarios'' (tables shop)\<rparr>),
      [Print MsgTruncStart, EvFetch catalog_query None,
       EvExecute (truncate_sql ''usuarios'') [] None, Print (MsgTruncOk ''usuarios''),
       EvExecute (truncate_sql ''produtos'') [] (Some permission_denied),
       Print (MsgTruncError ''permission denied'')])"
  by (simp add: script_defs sim_defs string_defs live_def shop_denied_def shop_def
        permission_denied_def)

lemma truncate_shop_events:
  "events (truncate_all_tables sim (live shop)) =
     [Print MsgTruncStart, EvFetch catalog_query None,
      EvExecute (truncate_sql ''usuarios'') [] None, Print (MsgTruncOk ''usuarios''),
      EvExecute (truncate_sql ''produtos'') [] None, Print (MsgTruncOk ''produtos''),
      EvExecute (truncate_sql ''clientes'') [] None, Print (MsgTruncOk ''clientes''),
      EvExecute (truncate_sql ''vendas'') [] None, Print (MsgTruncOk ''vendas''),
      EvExecute (truncate_sql ''itens_venda'') [] None, Print (MsgTruncOk ''itens_venda''),
      Print MsgTruncDone]"
  by (simp add: script_defs sim_defs string_defs live_def shop_def)

text \<open>
  C3, as the code has it. On a connection whose catalog query returns the table names
  \<open>ns\<close>, \<open>truncate_all_tables\<close> fetches the catalog and nothing else, and executes
  \<open>TRUNCATE TABLE "n" RESTART IDENTITY CASCADE\<close> for the names \<open>n\<close> that are not
  \<open>alembic_version\<close> and that \<open>re.match\<close> accepts, in catalog order, one statement each.
  A statement that fails ends the loop: it is the last statement executed, and its exception
  leaves \<open>truncate_all_tables\<close>. When no statement fails, all of them are executed and
  \<open>truncate_all_tables\<close> returns. A name that does not match is passed over and appears
  in no statement. So the statements are as many as the tables other than
  \<open>alembic_version\<close> when all their names match and no statement fails.
\<close>

theorem truncate_matching_names:
  assumes "has_conn s"
    and "fst (d_fetch D catalog_query (world s)) = Inr rows"
    and "tablenames rows = Inr (map VStr ns)"
  shows "executed (events (truncate_all_tables D s))
       = take (length (executed (events (truncate_all_tables D s))))
           (map truncate_sql (truncated_names ns))
     \<and> \<not> list_ex execute_failed (butlast (filter is_execute (events (truncate_all_tables D s))))
     \<and> (\<forall>e. outcome (truncate_all_tables D s) = Inl e
            \<longrightarrow> filter is_execute (events (truncate_all_tables D s)) \<noteq> []
                \<and> failure (last (filter is_execute (events (truncate_all_tables D s)))) = Some e)
     \<and> (list_ex execute_failed (events (truncate_all_tables D s))
          \<longrightarrow> outcome (truncate_all_tables D s) \<noteq> Inr ())
     \<and> (\<not> list_ex execute_failed (events (truncate_all_tables D s))
          \<longrightarrow> outcome (truncate_all_tables D s) = Inr ()
              \<and> executed (events (truncate_all_tables D s)) = map truncate_sql (truncated_names ns))
     \<and> (outcome (truncate_all_tables D s) = Inr ()
          \<longrightarrow> executed (events (truncate_all_tables D s)) = map truncate_sql (truncated_names ns))
     \<and> fetched (events (truncate_all_tables D s)) = [catalog_query]
     \<and> list_all re_match_ident (truncated_names ns)
     \<and> (\<not> list_ex execute_failed (events (truncate_all_tables D s)) \<and> list_all re_match_ident ns
          \<longrightarrow> length (executed (events (truncate_all_tables D s)))
              = length (filter (\<lambda>n. n \<noteq> ''alembic_version'') ns))
     \<and> (outcome (truncate_all_tables D s) = Inr () \<and> list_all re_match_ident ns
          \<longrightarrow> length (executed (events (truncate_all_tables D s)))
              = length (filter (\<lambda>n. n \<noteq> ''alembic_version'') ns))"
proof -
  have "truncated_names ns = filter (\<lambda>n. n \<noteq> ''alembic_version'') ns"
    if "list_all re_match_ident ns"
    using that by (auto simp: truncated_names_def list_all_iff intro: filter_cong)
  moreover have "list_all re_match_ident (truncated_names ns)"
    by (simp add: truncated_names_def list_all_iff)
  ultimately show ?thesis
    using truncate_all_statements [OF assms] truncate_all_failures [OF assms] by auto
qed

theorem truncate_matching_names_witness:
  "has_conn (live shop)
   \<and> executed (events (truncate_all_tables sim (live shop)))
       = map truncate_sql [''usuarios'', ''produtos'', ''clientes'', ''vendas'', ''itens_venda'']
   \<and> outcome (truncate_all_tables sim (live shop)) = Inr ()
   \<and> length (executed (events (truncate_all_tables sim (live shop)))) = 5
   \<and> fetched (events (truncate_all_tables sim (live shop))) = [catalog_query]
   \<and> has_conn (live shop_denied)
   \<and> list_ex execute_failed (events (truncate_all_tables sim (live shop_denied)))
   \<and> outcome (truncate_all_tables sim (live shop_denied)) \<noteq> Inr ()
   \<and> executed (events (truncate_all_tables sim (live shop_denied)))
       = take 2 (map truncate_sql [''usuarios'', ''produtos'', ''clientes'', ''vendas'',
                                   ''itens_venda''])"
proof -
  have l: "has_conn (live shop)" and d: "has_conn (live shop_denied)"
    by (simp_all add: live_def)
  have nofail: "\<not> list_ex execute_failed (events (truncate_all_tables sim (live shop)))"
    by (simp add: truncate_shop_events)
  have fail: "list_ex execute_failed (events (truncate_all_tables sim (live shop_denied)))"
    by (simp add: truncate_shop_denied)
  have two: "length (executed (events (truncate_all_tables sim (live shop_denied)))) = 2"
    by (simp add: truncate_shop_denied executed_def)
  have all: "list_all re_match_ident [''usuarios'', ''produtos'', ''clientes'', ''vendas'',
      ''itens_venda'', ''alembic_version'']"
    by (simp add: string_defs)
  show ?thesis
    using truncate_matching_names [OF l catalog_shop tablenames_shop]
      truncate_matching_names [OF d catalog_shop_denied tablenames_shop]
      l d nofail fail two all
    by (simp add: truncated_names_shop)
qed

text \<open>
  As stated, C3 fails: a public schema with the two tables \<open>usuarios\<close> and
  \<open>itens-venda\<close> gets one TRUNCATE statement, not two.
\<close>

theorem truncate_skips_table_counterexample:
  "map fst (tables shop_odd) = [''usuarios'', ''itens-venda'']
   \<and> outcome (truncate_all_tables sim (live shop_odd)) = Inr ()
   \<and> events (truncate_all_tables sim (live shop_odd)) =
       [Print MsgTruncStart, EvFetch catalog_query None,
        EvExecute (truncate_sql ''usuarios'') [] None, Print (MsgTruncOk ''usuarios''),
        Print MsgTruncDone]"
  by (simp add: script_defs sim_defs string_defs live_def shop_odd_def shop_def)

section \<open>The backup collector\<close>

lemma fetch_each_shop:
  "fetch_each sim backup_tables shop =
     (Inr [(''usuarios'', [old_user]), (''produtos'', []), (''clientes'', []), (''vendas'', [])],
      shop,
      [EvFetch (select_all ''usuarios'') None, EvFetch (select_all ''produtos'') None,
       EvFetch (select_all ''clientes'') None, EvFetch (select_all ''vendas'') None])"
  by (simp add: backup_tables_def sim_calls sim_fetch_select shop_def)

lemma fetch_each_shop_partial:
  "fetch_each sim backup_tables shop_partial =
     (Inl no_relation, shop_partial,
      [EvFetch (select_all ''usuarios'') None, EvFetch (select_all ''produtos'') (Some no_relation)])"
  by (simp add: backup_tables_def sim_calls sim_fetch_select shop_partial_def shop_def)

text \<open>
  C4, as the code has it. \<open>backup_data\<close> never raises: one \<open>try\<close> surrounds the four
  fetches and its handler returns the empty dictionary. On a connection it fetches the four
  tables in the order of the list, from the driver, up to the first fetch that fails, and
  sends nothing else. When all four fetches succeed it returns the four tables, each with
  the rows its fetch returned; when one fails it prints the error and returns the empty
  dictionary, whatever had been fetched before, and fetches no further table. A result that
  is not empty therefore comes from four successful fetches. Without a connection it
  fetches nothing and returns the empty dictionary.
\<close>

theorem backup_all_or_nothing:
  "(\<exists>b. outcome (backup_data D s) = Inr b
        \<and> map fst b = (if list_ex fetch_failed (events (backup_data D s)) \<or> \<not> has_conn s
                       then [] else backup_tables))
   \<and> map statement (filter is_sql (events (backup_data D s)))
       = take (length (filter is_sql (events (backup_data D s)))) (map select_all backup_tables)
   \<and> \<not> list_ex fetch_failed (butlast (filter is_sql (events (backup_data D s))))
   \<and> (has_conn s \<longrightarrow>
        outcome (backup_data D s)
          = Inr (case outcome (fetch_each D backup_tables (world s)) of Inl e \<Rightarrow> [] | Inr b \<Rightarrow> b)
        \<and> world (after (backup_data D s)) = after (fetch_each D backup_tables (world s))
        \<and> filter is_sql (events (backup_data D s)) = events (fetch_each D backup_tables (world s))
        \<and> (\<forall>e. outcome (fetch_each D backup_tables (world s)) = Inl e
               \<longrightarrow> last (events (backup_data D s)) = Print (MsgBackupError (exn_msg e)))
        \<and> (\<not> list_ex fetch_failed (events (backup_data D s))
             \<longrightarrow> fetched (events (backup_data D s)) = map select_all backup_tables))
   \<and> (\<forall>b. outcome (backup_data D s) = Inr b \<and> b \<noteq> []
          \<longrightarrow> has_conn s \<and> \<not> list_ex fetch_failed (events (backup_data D s))
              \<and> fetched (events (backup_data D s)) = map select_all backup_tables
              \<and> map fst b = backup_tables)
   \<and> (\<not> has_conn s \<longrightarrow>
        backup_data D s
          = (Inr [], s, [Print MsgBackupStart, Print (MsgBackupError (exn_msg no_conn_error))]))"
proof -
  note r = backup_data_returns [of D s]
  note f = backup_data_fetches [of D s]
  have e: "has_conn s \<longrightarrow>
        outcome (backup_data D s)
          = Inr (case outcome (fetch_each D backup_tables (world s)) of Inl e \<Rightarrow> [] | Inr b \<Rightarrow> b)
        \<and> world (after (backup_data D s)) = after (fetch_each D backup_tables (world s))
        \<and> filter is_sql (events (backup_data D s)) = events (fetch_each D backup_tables (world s))
        \<and> (\<forall>e. outcome (fetch_each D backup_tables (world s)) = Inl e
               \<longrightarrow> last (events (backup_data D s)) = Print (MsgBackupError (exn_msg e)))
        \<and> (\<not> list_ex fetch_failed (events (backup_data D s))
             \<longrightarrow> fetched (events (backup_data D s)) = map select_all backup_tables)"
    using backup_data_fetch_each [of s D] by blast
  have o: "\<not> has_conn s \<longrightarrow>
        backup_data D s
          = (Inr [], s, [Print MsgBackupStart, Print (MsgBackupError (exn_msg no_conn_error))])"
    using backup_data_offline [of s D] by blast
  have n: "\<forall>b. outcome (backup_data D s) = Inr b \<and> b \<noteq> []
          \<longrightarrow> has_conn s \<and> \<not> list_ex fetch_failed (events (backup_data D s))
              \<and> fetched (events (backup_data D s)) = map select_all backup_tables
              \<and> map fst b = backup_tables"
  proof (intro allI impI)
    fix b
    assume b: "outcome (backup_data D s) = Inr b \<and> b \<noteq> []"
    then have "map fst b \<noteq> []" by simp
    then have c: "has_conn s" "\<not> list_ex fetch_failed (events (backup_data D s))"
        "map fst b = backup_tables"
      using r b by (auto split: if_splits)
    then show "has_conn s \<and> \<not> list_ex fetch_failed (events (backup_data D s))
        \<and> fetched (events (backup_data D s)) = map select_all backup_tables
        \<and> map fst b = backup_tables"
      using e by blast
  qed
  show ?thesis
    using r f e o n by blast
qed

theorem backup_all_or_nothing_witness:
  "has_conn (live shop)
   \<and> outcome (backup_data sim (live shop))
       = Inr [(''usuarios'', [old_user]), (''produtos'', []), (''clientes'', []), (''vendas'', [])]
   \<and> filter is_sql (events (backup_data sim (live shop)))
       = [EvFetch (select_all ''usuarios'') None, EvFetch (select_all ''produtos'') None,
          EvFetch (select_all ''clientes'') None, EvFetch (select_all ''vendas'') None]
   \<and> has_conn (live shop_partial)
   \<and> outcome (backup_data sim (live shop_partial)) = Inr []
   \<and> filter is_sql (events (backup_data sim (live shop_partial)))
       = [EvFetch (select_all ''usuarios'') None, EvFetch (select_all ''produtos'') (Some no_relation)]
   \<and> last (events (backup_data sim (live shop_partial)))
       = Print (MsgBackupError (exn_msg no_relation))"
proof -
  have l: "has_conn (live shop)" "world (live shop) = shop"
    and p: "has_conn (live shop_partial)" "world (live shop_partial) = shop_partial"
    by (simp_all add: live_def)
  show ?thesis
    using backup_all_or_nothing [of sim "live shop"] backup_all_or_nothing [of sim "live shop_partial"]
      l p
    by (simp add: fetch_each_shop fetch_each_shop_partial)
qed

text \<open>
  As stated, C4 fails: where only \<open>usuarios\<close> exists, its fetch succeeds, the fetch of
  \<open>produtos\<close> fails, and the collector returns the empty dictionary, not the one table it
  had fetched.
\<close>

theorem backup_drops_fetched_counterexample:
  "backup_data sim (live shop_partial) =
     (Inr [], live shop_partial,
      [Print MsgBackupStart,
       EvFetch (select_all ''usuarios'') None, Print (MsgSaved ''usuarios'' 1),
       EvFetch (select_all ''produtos'') (Some no_relation),
       Print (MsgBackupError ''relation does not exist'')])"
  by (simp add: script_defs sim_defs live_def shop_partial_def shop_def no_relation_def)

section \<open>An argument that names no workflow\<close>

text \<open>
  C5, as the code has it. Without an argument \<open>main\<close> prints the usage lines and returns,
  and nothing else happens. With an argument whose lower-case form is none of \<open>check\<close>,
  \<open>complete\<close> and \<open>data\<close>, and a connection string configured, \<open>main\<close> attempts the
  connection first; it issues no SQL statement, reads no input and prints no usage line, and
  it prints that the action is not recognised exactly when the connection was established,
  and it closes the connection it established, as the last thing it does but print.
\<close>

theorem unknown_action_after_connect:
  assumes "py_lower arg \<noteq> ''check''" and "py_lower arg \<noteq> ''complete''"
    and "py_lower arg \<noteq> ''data''" and "DatabaseReset_init cfg = Inr url"
  shows "main D cfg [] w = (Inr (), w, [Print MsgBanner, Print MsgRule] @ usage)
     \<and> main D cfg [script] w = (Inr (), w, [Print MsgBanner, Print MsgRule] @ usage)
     \<and> list_ex is_connect (events (main D cfg (script # arg # others) w))
     \<and> filter is_sql (events (main D cfg (script # arg # others) w)) = []
     \<and> filter is_input (events (main D cfg (script # arg # others) w)) = []
     \<and> Print MsgUsage \<notin> set (events (main D cfg (script # arg # others) w))
     \<and> (Print (MsgUnknownAction (py_lower arg)) \<in> set (events (main D cfg (script # arg # others) w)))
         = list_ex is_connected (events (main D cfg (script # arg # others) w))
     \<and> length (filter is_close (events (main D cfg (script # arg # others) w)))
         = length (filter is_connected (events (main D cfg (script # arg # others) w)))
     \<and> (list_ex is_connected (events (main D cfg (script # arg # others) w))
          \<longrightarrow> is_close (last (nonprints (events (main D cfg (script # arg # others) w)))))"
proof (cases rule: main_runs [of D cfg "script # arg # others" w])
  case usage
  then show ?thesis by simp
next
  case (unconfigured script' arg' others' e)
  then show ?thesis using assms(4) by simp
next
  case (connecting script' arg' others' url' b s1 ev1 r2 s2 ev2)
  then have arg: "arg' = arg" by simp
  let ?u = "Print (MsgUnknownAction (py_lower arg))"
  let ?evs = "run_head cfg @ ev1 @ ev2 @ general_error r2 @ events (close D s2)"
  have evs: "events (main D cfg (script # arg # others) w) = ?evs"
    using connecting(11) by simp
  have d: "dispatch D (py_lower arg) s1 = (Inr (), s1, [?u])"
    using assms(1-3) by (simp add: dispatch_def say_def says_def)
  have ev2: "ev2 = (if b then [?u] else [])" and r2: "r2 = Inr ()"
    using connecting(8) d arg by (auto split: if_splits)
  note dc = dial_counts [OF connecting(5)]
  have c1: "list_ex is_connect ?evs"
    using connecting(7) by simp
  have c2: "filter is_sql ?evs = []" "filter is_input ?evs = []"
    using head_counts [of cfg] dc close_counts [of D s2] ev2 r2
    by (simp_all add: general_error_def)
  have c3: "Print MsgUsage \<notin> set ?evs"
    using head_prints [of MsgUsage cfg] dial_prints [OF connecting(5), of MsgUsage]
      close_prints [of MsgUsage D s2] ev2 r2
    by (auto simp: general_error_def)
  have "(?u \<in> set ?evs) = b"
    using head_prints [of "MsgUnknownAction (py_lower arg)" cfg]
      dial_prints [OF connecting(5), of "MsgUnknownAction (py_lower arg)"]
      close_prints [of "MsgUnknownAction (py_lower arg)" D s2] ev2 r2
    by (auto simp: general_error_def)
  moreover have n: "length (filter is_connected ?evs) = (if b then 1 else 0)"
    using head_counts [of cfg] connecting(6) close_counts [of D s2] ev2 r2
    by (simp add: general_error_def)
  moreover have k: "list_ex is_connected ?evs = b"
    using n by (simp only: list_ex_length) simp
  moreover have "length (filter is_close ?evs) = (if b then 1 else 0)"
    using head_counts [of cfg] dc close_counts [of D s2] connecting(9) ev2 r2
    by (simp add: general_error_def)
  moreover have "is_close (last (nonprints ?evs))" if "b"
    using that connecting(9) close_nonprints [of D s2] by (simp add: nonprints_def)
  ultimately show ?thesis
    unfolding evs using c1 c2 c3 by simp
qed

theorem unknown_action_after_connect_witness:
  "py_lower ''restore'' \<noteq> ''check'' \<and> py_lower ''restore'' \<noteq> ''complete''
   \<and> py_lower ''restore'' \<noteq> ''data''
   \<and> DatabaseReset_init cfg_url = Inr ''postgresql://u:p@host/loja''
   \<and> main sim cfg_url [] shop = (Inr (), shop, [Print MsgBanner, Print MsgRule] @ usage)
   \<and> list_ex is_connect (events (main sim cfg_url [''reset_database_online.py'', ''restore''] shop))
   \<and> filter is_sql (events (main sim cfg_url [''reset_database_online.py'', ''restore''] shop)) = []
   \<and> Print MsgUsage \<notin> set (events (main sim cfg_url [''reset_database_online.py'', ''restore''] shop))"
proof -
  have l: "py_lower ''restore'' \<noteq> ''check''" "py_lower ''restore'' \<noteq> ''complete''"
    "py_lower ''restore'' \<noteq> ''data''"
    by (simp_all add: lower_names)
  show ?thesis
    using unknown_action_after_connect [OF l cfg_url_init, of sim shop "''reset_database_online.py''" "[]"]
      l cfg_url_init
    by simp
qed

text \<open>
  As stated, C5 fails: for the argument \<open>restore\<close> the run connects, prints that the action
  is not recognised, and prints no usage line.
\<close>

theorem unknown_action_connects_counterexample:
  "main sim cfg_url (argv_of ''restore'') shop =
     (Inr (), shop,
      [Print MsgBanner, Print MsgRule,
       EvConnect ''postgresql://u:p@host/loja'' None, Print MsgConnected,
       Print (MsgUnknownAction ''restore''), EvClose None, Print MsgClosed])"
  by (simp add: argv_of_def main_configured [OF cfg_url_init] run_head_cfg_url lower_names
        script_defs sim_defs string_defs shop_def
      del: main.simps)

section \<open>The confirmation gate\<close>

lemma answers:
  "answered (Inr ''CONFIRMO'') ''CONFIRMO''" "answered (Inr ''SIM'') ''SIM''"
  "\<not> answered (Inr ''confirmo'') ''CONFIRMO''"
  by (simp_all add: answered_def string_defs)

text \<open>
  C6, as the code has it. \<open>confirm_action\<close> returns \<open>True\<close> exactly when the first line
  read, with the white space at its ends removed, is \<open>CONFIRMO\<close> and the second, likewise
  stripped, is \<open>SIM\<close>; the comparison distinguishes upper and lower case. It prints its
  confirmation exactly then, it issues no SQL statement itself, and a run of \<open>main\<close> in
  which the confirmation is not printed issues no SQL statement.
\<close>

theorem gate_accepts_stripped_pair:
  "(outcome (confirm_action D n s) = Inr True)
     = (answered (fst (d_input D (world s))) ''CONFIRMO''
        \<and> answered (fst (d_input D (snd (d_input D (world s))))) ''SIM'')
   \<and> (Print MsgConfirmed \<in> set (events (confirm_action D n s)))
       = (outcome (confirm_action D n s) = Inr True)
   \<and> filter is_sql (events (confirm_action D n s)) = []
   \<and> (Print MsgConfirmed \<notin> set (events (main D cfg argv w))
        \<longrightarrow> filter is_sql (events (main D cfg argv w)) = [])"
proof -
  have "filter is_sql (events (main D cfg argv w)) = []"
    if no: "Print MsgConfirmed \<notin> set (events (main D cfg argv w))"
  proof (cases rule: main_runs [of D cfg argv w])
    case usage
    then show ?thesis by (simp add: usage_def)
  next
    case (unconfigured script arg others e)
    then show ?thesis using head_counts [of cfg] by simp
  next
    case (connecting script arg others url b s1 ev1 r2 s2 ev2)
    let ?evs = "run_head cfg @ ev1 @ ev2 @ general_error r2 @ events (close D s2)"
    have evs: "events (main D cfg argv w) = ?evs"
      using connecting(11) by simp
    have "Print MsgConfirmed \<notin> set ev2"
      using no unfolding evs by simp
    then have "filter is_sql ev2 = []"
      using connecting(8) dispatch_sql [of D "py_lower arg" s1]
      by (cases b) auto
    then show ?thesis
      unfolding evs
      using head_counts [of cfg] dial_counts [OF connecting(5)] general_error_counts [of r2]
        close_counts [of D s2]
      by simp
  qed
  then show ?thesis
    using confirm_action_result [of D n s] confirm_action_confirmed [of D n s]
      confirm_action_no_sql [of D n s]
    by blast
qed

theorem gate_accepts_stripped_pair_witness:
  "outcome (confirm_action sim ''fazer RESET COMPLETO do banco'' (live shop_confirmed)) = Inr True
   \<and> outcome (confirm_action sim ''fazer RESET COMPLETO do banco'' (live shop_lowercase)) \<noteq> Inr True
   \<and> filter is_sql (events (main sim cfg_url (argv_of ''data'') shop_lowercase)) = []"
proof -
  have a: "Print MsgConfirmed \<notin> set (events (main sim cfg_url (argv_of ''data'') shop_lowercase))"
    by (simp add: run_data_lowercase)
  show ?thesis
    using gate_accepts_stripped_pair [of sim "''fazer RESET COMPLETO do banco''" "live shop_confirmed"
        cfg_url "argv_of ''data''" shop_lowercase]
      gate_accepts_stripped_pair [of sim "''fazer RESET COMPLETO do banco''" "live shop_lowercase"
        cfg_url "argv_of ''data''" shop_lowercase]
      a answers
    by (simp add: live_def shop_confirmed_def shop_lowercase_def shop_def sim_calls sim_input_def)
qed

text \<open>
  As stated, C6 fails: the answers \<open>" CONFIRMO"\<close> and \<open>"SIM  "\<close> are not the literal
  pair, and the gate lets the run through to its eleven SQL statements.
\<close>

theorem gate_accepts_padded_counterexample:
  "stdin shop_padded = ['' CONFIRMO'', ''SIM  '']
   \<and> outcome (confirm_action sim ''LIMPAR TODOS OS DADOS do banco'' (live shop_padded)) = Inr True
   \<and> length (filter is_sql (events (main sim cfg_url (argv_of ''data'') shop_padded))) = 11"
  by (simp add: argv_of_def main_configured [OF cfg_url_init] run_head_cfg_url lower_names
        script_defs sim_defs string_defs shop_padded_def shop_def live_def admin_columns_def
        admin_params_def
      del: main.simps)

section \<open>Missing configuration\<close>

text \<open>
  C7. When neither \<open>DATABASE_PUBLIC_URL\<close> nor \<open>DATABASE_URL\<close> is set, the constructor
  raises its configuration error, and a run of \<open>main\<close> that builds the object ends on that
  error after printing its banner only: no connection attempt, no other call to the driver.
\<close>

theorem init_without_url_raises:
  assumes "env_public cfg = None" and "env_internal cfg = None"
  shows "DatabaseReset_init cfg = Inl no_url_error
     \<and> main D cfg (script # arg # others) w =
         (Inl no_url_error, w,
          [Print MsgBanner, Print MsgRule] @ (if dotenv_exists cfg then [] else [Print MsgNoDotenv]))"
proof -
  have "or_url (env_public cfg) (env_internal cfg) = None"
    using assms by (simp add: or_url_def)
  then have init: "DatabaseReset_init cfg = Inl no_url_error"
    by (simp add: DatabaseReset_init_def)
  then show ?thesis
    by (simp add: Let_def)
qed

theorem init_without_url_raises_witness:
  "env_public cfg_none = None \<and> env_internal cfg_none = None
   \<and> DatabaseReset_init cfg_none = Inl no_url_error
   \<and> main sim cfg_none [''reset_database_online.py'', ''complete''] shop =
       (Inl no_url_error, shop, [Print MsgBanner, Print MsgRule, Print MsgNoDotenv])"
proof -
  have a: "env_public cfg_none = None" and b: "env_internal cfg_none = None"
    by (simp_all add: cfg_none_def)
  have "dotenv_exists cfg_none = False"
    by (simp add: cfg_none_def)
  then show ?thesis
    using init_without_url_raises [OF a b, of sim "''reset_database_online.py''" "''complete''" "[]" shop] a b
    by simp
qed

section \<open>Closing the connection\<close>

lemma run_data_denied:
  "events (main sim cfg_url (argv_of ''data'') shop_denied) =
     [Print MsgBanner, Print MsgRule,
      EvConnect ''postgresql://u:p@host/loja'' None, Print MsgConnected,
      Print (MsgWarnAbout ''LIMPAR TODOS OS DADOS do banco''), Print MsgWarnErase,
      Print MsgWarnTarget,
      EvInput PromptConfirmo (Inr ''CONFIRMO''), EvInput PromptSim (Inr ''SIM''),
      Print MsgConfirmed, Print MsgDataStart, Print MsgRule, Print MsgBackupStart,
      EvFetch (select_all ''usuarios'') None, Print (MsgSaved ''usuarios'' 1),
      EvFetch (select_all ''produtos'') None, Print (MsgSaved ''produtos'' 0),
      EvFetch (select_all ''clientes'') None, Print (MsgSaved ''clientes'' 0),
      EvFetch (select_all ''vendas'') None, Print (MsgSaved ''vendas'' 0),
      Print MsgTruncStart, EvFetch catalog_query None,
      EvExecute (truncate_sql ''usuarios'') [] None, Print (MsgTruncOk ''usuarios''),
      EvExecute (truncate_sql ''produtos'') [] (Some permission_denied),
      Print (MsgTruncError ''permission denied''), Print (MsgDataError ''permission denied''),
      Print (MsgGeneralError ''permission denied''), EvClose None, Print MsgClosed]"
  by (simp add: argv_of_def main_configured [OF cfg_url_init] run_head_cfg_url lower_names
        script_defs sim_defs string_defs shop_denied_def shop_def permission_denied_def
      del: main.simps)

text \<open>
  C8, as the code has it. In every run, \<open>conn.close()\<close> is called as often as a connection
  was established, which is at most once, and when one was established the call is the last
  thing the run does to the outside apart from printing. This holds whatever the driver does:
  an exception of the backup, of the truncation or of the seeding does not skip it. A run
  that establishes no connection (no argument, no connection string, every attempt failed)
  closes none.
\<close>

theorem close_once_per_connection:
  "length (filter is_close (events (main D cfg argv w)))
     = length (filter is_connected (events (main D cfg argv w)))
   \<and> length (filter is_connected (events (main D cfg argv w))) \<le> 1
   \<and> (list_ex is_connected (events (main D cfg argv w))
        \<longrightarrow> is_close (last (nonprints (events (main D cfg argv w)))))"
proof (cases rule: main_runs [of D cfg argv w])
  case usage
  then show ?thesis by (simp add: usage_def)
next
  case (unconfigured script arg others e)
  have "filter is_close (run_head cfg) = []" "filter is_connected (run_head cfg) = []"
    by (simp_all add: run_head_def)
  then show ?thesis
    using unconfigured(3) by (simp add: list_ex_iff filter_empty_conv)
next
  case (connecting script arg others url b s1 ev1 r2 s2 ev2)
  have h: "filter is_close (run_head cfg) = []" "filter is_connected (run_head cfg) = []"
    by (simp_all add: run_head_def)
  have g: "filter is_close (general_error r2) = []" "filter is_connected (general_error r2) = []"
    by (simp_all add: general_error_def split: sum.splits)
  have e1: "filter is_close ev1 = []"
    by (rule filter_none [OF connecting(5)]) (rule dial_is_not)
  have e2: "filter is_close ev2 = []" "filter is_connected ev2 = []"
    by (rule filter_none [OF connecting(10)], erule io_is_not)+
  let ?evs = "run_head cfg @ ev1 @ ev2 @ general_error r2 @ events (close D s2)"
  have evs: "events (main D cfg argv w) = ?evs"
    using connecting(11) by simp
  have n: "length (filter is_close ?evs) = (if b then 1 else 0)"
      "length (filter is_connected ?evs) = (if b then 1 else 0)"
    using h g e1 e2 connecting(6,9) close_counts [of D s2] by simp_all
  have l: "is_close (last (nonprints ?evs))" if "b"
    using that connecting(9) close_nonprints [of D s2] by (simp add: nonprints_def)
  have "list_ex is_connected ?evs \<longrightarrow> b"
    using n(2) by (auto simp: list_ex_iff filter_empty_conv split: if_splits) 
  then show ?thesis
    unfolding evs using n l by auto
qed

theorem close_once_per_connection_witness:
  "length (filter is_close (events (main sim cfg_url (argv_of ''data'') shop_denied))) = 1
   \<and> is_close (last (nonprints (events (main sim cfg_url (argv_of ''data'') shop_denied))))"
proof -
  have "length (filter is_connected (events (main sim cfg_url (argv_of ''data'') shop_denied))) = 1"
    by (simp add: run_data_denied)
  moreover have "list_ex is_connected (events (main sim cfg_url (argv_of ''data'') shop_denied))"
    by (simp add: run_data_denied)
  ultimately show ?thesis
    using close_once_per_connection [of sim cfg_url "argv_of ''data''" shop_denied] by simp
qed

text \<open>
  As stated, C8 fails: with no connection string the constructor raises before the
  \<open>try\<close>, and that error path never calls close.
\<close>

theorem close_not_reached_counterexample:
  "outcome (main sim cfg_none (argv_of ''complete'') shop) = Inl no_url_error
   \<and> length (filter is_close (events (main sim cfg_none (argv_of ''complete'') shop))) = 0"
  by (simp add: argv_of_def DatabaseReset_init_def or_url_def cfg_none_def)

section \<open>The two workflows are one\<close>

text \<open>
  C9. \<open>reset_complete\<close> and \<open>reset_data_only\<close>, started in the same state, make the same
  calls to the driver with the same outcomes, in the same order, end in the same state and
  return or raise alike; the calls are those of the three steps, backup, truncation and
  seeding, in this order. Only the lines they print differ. The same holds for whole runs of
  \<open>main\<close> on \<open>complete\<close> and on \<open>data\<close>.
\<close>

theorem workflows_same_steps:
  "nonprints (events (reset_complete D s)) = nonprints (events (reset_data_only D s))
   \<and> outcome (reset_complete D s) = outcome (reset_data_only D s)
   \<and> after (reset_complete D s) = after (reset_data_only D s)
   \<and> nonprints (events (reset_complete D s)) = nonprints (events (steps D s))
   \<and> nonprints (events (main D cfg (script # ''complete'' # others) w))
       = nonprints (events (main D cfg (script # ''data'' # others) w))
   \<and> outcome (main D cfg (script # ''complete'' # others) w)
       = outcome (main D cfg (script # ''data'' # others) w)
   \<and> after (main D cfg (script # ''complete'' # others) w)
       = after (main D cfg (script # ''data'' # others) w)"
proof -
  have "nonprints (events (main D cfg (script # ''complete'' # others) w))
       = nonprints (events (main D cfg (script # ''data'' # others) w))
     \<and> outcome (main D cfg (script # ''complete'' # others) w)
       = outcome (main D cfg (script # ''data'' # others) w)
     \<and> after (main D cfg (script # ''complete'' # others) w)
       = after (main D cfg (script # ''data'' # others) w)"
  proof (cases "DatabaseReset_init cfg")
    case (Inl e)
    then show ?thesis by (simp add: Let_def)
  next
    case (Inr url)
    let ?s = "\<lparr>has_conn = False, database_url = url, world = w\<rparr>"
    obtain r s1 ev where a: "main_try D ''complete'' ?s = (r, s1, ev)"
      by (cases "main_try D ''complete'' ?s") auto
    obtain ev' where b: "main_try D ''data'' ?s = (r, s1, ev')" "nonprints ev' = nonprints ev"
      using main_try_same [of D ?s] a by (cases "main_try D ''data'' ?s") auto
    show ?thesis
      using a b by (simp add: main_configured [OF Inr] lower_names del: main.simps)
  qed
  then show ?thesis
    using reset_complete_steps [of D s] reset_data_only_steps [of D s] by simp
qed

theorem workflows_same_steps_witness:
  "nonprints (events (reset_complete sim (live shop_confirmed)))
     = nonprints (events (reset_data_only sim (live shop_confirmed)))
   \<and> outcome (main sim cfg_url [''reset_database_online.py'', ''complete''] shop_confirmed)
     = outcome (main sim cfg_url [''reset_database_online.py'', ''data''] shop_confirmed)"
  using workflows_same_steps [of sim "live shop_confirmed" cfg_url "''reset_database_online.py''" "[]"
      shop_confirmed]
  by blast

section \<open>The argument in lower case\<close>

lemma main_on_lowered:
  "main D cfg (script # arg # others) w = main D cfg (script # py_lower arg # others) w"
  by (simp add: py_lower_idem)

lemma dispatch_named:
  "dispatch D a = (case workflow_named a of Some flow \<Rightarrow> perform D flow | None \<Rightarrow> say (MsgUnknownAction a))"
  by (simp add: dispatch_def workflow_named_def)

lemma main_try_named: "main_try D a = run_named D a"
  unfolding main_try_def main_body_def run_named_def dispatch_named
  by (rule refl)

lemma run_check_upper:
  "main sim cfg_url [''reset_database_online.py'', ''check''] shop =
     (Inr (), shop,
      [Print MsgBanner, Print MsgRule,
       EvConnect ''postgresql://u:p@host/loja'' None, Print MsgConnected,
       Print MsgCheckOk, EvClose None, Print MsgClosed])"
  by (simp add: main_configured [OF cfg_url_init] run_head_cfg_url lower_names
        script_defs sim_defs string_defs shop_def
      del: main.simps)

text \<open>
  C10. The argument is put in lower case, and the result alone selects: \<open>main\<close> behaves
  on an argument as on that argument in lower case. An argument whose lower-case form is
  \<open>check\<close>, \<open>complete\<close> or \<open>data\<close> selects the workflow of that name, any other selects
  none and is reported as not recognised; so \<open>CHECK\<close>, \<open>Complete\<close> and \<open>DATA\<close> select
  what \<open>check\<close>, \<open>complete\<close> and \<open>data\<close> select. A run of \<open>main\<close> that builds its
  object is the run for the lower-case form of its argument.
\<close>

theorem action_is_lowered:
  "main D cfg (script # arg # others) w = main D cfg (script # py_lower arg # others) w
   \<and> main D cfg (script # ''CHECK'' # others) w = main D cfg (script # ''check'' # others) w
   \<and> main D cfg (script # ''Complete'' # others) w = main D cfg (script # ''complete'' # others) w
   \<and> main D cfg (script # ''DATA'' # others) w = main D cfg (script # ''data'' # others) w
   \<and> dispatch D (py_lower arg)
       = (case workflow_named (py_lower arg) of
            Some flow \<Rightarrow> perform D flow
          | None \<Rightarrow> say (MsgUnknownAction (py_lower arg)))
   \<and> main D cfg (script # arg # others) w
       = (case DatabaseReset_init cfg of
            Inl e \<Rightarrow> (Inl e, w, run_head cfg)
          | Inr url \<Rightarrow>
              (case run_named D (py_lower arg) \<lparr>has_conn = False, database_url = url, world = w\<rparr> of
                 (r, s, evs) \<Rightarrow> (r, world s, run_head cfg @ evs)))
   \<and> workflow_named (py_lower ''CHECK'') = Some WfCheck
   \<and> workflow_named (py_lower ''Complete'') = Some WfComplete
   \<and> workflow_named (py_lower ''DATA'') = Some WfData
   \<and> workflow_named (py_lower ''check'') = Some WfCheck
   \<and> workflow_named (py_lower ''complete'') = Some WfComplete
   \<and> workflow_named (py_lower ''data'') = Some WfData"
proof -
  have a: "main D cfg (script # ''CHECK'' # others) w = main D cfg (script # ''check'' # others) w"
      "main D cfg (script # ''Complete'' # others) w = main D cfg (script # ''complete'' # others) w"
      "main D cfg (script # ''DATA'' # others) w = main D cfg (script # ''data'' # others) w"
    by (simp_all add: lower_upper_names lower_names)
  have m: "main D cfg (script # arg # others) w
       = (case DatabaseReset_init cfg of
            Inl e \<Rightarrow> (Inl e, w, run_head cfg)
          | Inr url \<Rightarrow>
              (case run_named D (py_lower arg) \<lparr>has_conn = False, database_url = url, world = w\<rparr> of
                 (r, s, evs) \<Rightarrow> (r, world s, run_head cfg @ evs)))"
  proof (cases "DatabaseReset_init cfg")
    case (Inl e)
    then show ?thesis by (simp add: run_head_def Let_def)
  next
    case (Inr url)
    then show ?thesis by (simp add: main_configured [OF Inr] main_try_named del: main.simps)
  qed
  have n: "workflow_named (py_lower ''CHECK'') = Some WfCheck"
      "workflow_named (py_lower ''Complete'') = Some WfComplete"
      "workflow_named (py_lower ''DATA'') = Some WfData"
      "workflow_named (py_lower ''check'') = Some WfCheck"
      "workflow_named (py_lower ''complete'') = Some WfComplete"
      "workflow_named (py_lower ''data'') = Some WfData"
    by (simp_all add: lower_upper_names lower_names workflow_named_def)
  show ?thesis
    using main_on_lowered [of D cfg script arg others w] a dispatch_named [of D "py_lower arg"] m n
    by blast
qed

theorem action_is_lowered_witness:
  "main sim cfg_url [''reset_database_online.py'', ''CHECK''] shop =
     (Inr (), shop,
      [Print MsgBanner, Print MsgRule,
       EvConnect ''postgresql://u:p@host/loja'' None, Print MsgConnected,
       Print MsgCheckOk, EvClose None, Print MsgClosed])
   \<and> dispatch sim (py_lower ''Complete'') = perform sim WfComplete
   \<and> dispatch sim (py_lower ''DATA'') = perform sim WfData
   \<and> dispatch sim (py_lower ''CHECK'') = perform sim WfCheck"
proof -
  have "main sim cfg_url [''reset_database_online.py'', ''CHECK''] shop
      = main sim cfg_url [''reset_database_online.py'', ''check''] shop"
    by (rule action_is_lowered [THEN conjunct2, THEN conjunct1])
  moreover have "dispatch sim (py_lower ''Complete'') = perform sim WfComplete"
    using action_is_lowered [of sim cfg_url "''x''" "''Complete''" "[]" shop] by simp
  moreover have "dispatch sim (py_lower ''DATA'') = perform sim WfData"
    using action_is_lowered [of sim cfg_url "''x''" "''DATA''" "[]" shop] by simp
  moreover have "dispatch sim (py_lower ''CHECK'') = perform sim WfCheck"
    using action_is_lowered [of sim cfg_url "''x''" "''CHECK''" "[]" shop] by simp
  ultimately show ?thesis
    by (simp only: run_check_upper simp_thms)
qed

end
